theory Spec2Isabelle
  imports Complex_Main
begin

section \<open>Service registry of \<open>services/public_ip.py\<close>\<close>

text \<open>
  \<open>IPService\<close> is a mutable dataclass. Registries are Python lists of references to
  such objects, and both the objects and the lists are shared between detectors, so
  both live in an explicit store: \<open>objs\<close> maps an object address to the
  \<open>IPService\<close> stored there, \<open>lists\<close> maps a list address to the sequence of object
  addresses the list holds. \<open>next_obj\<close> and \<open>next_list\<close> are the first addresses not
  yet allocated.
\<close>

record IPService =
  name :: string
  url :: string
  timeout :: int
  enabled :: bool

type_synonym addr = nat

record heap =
  objs :: "addr \<Rightarrow> IPService"
  next_obj :: addr
  lists :: "addr \<Rightarrow> addr list"
  next_list :: addr

text \<open>\<open>IPService(...)\<close>: a new object.\<close>

definition new_service :: "heap \<Rightarrow> IPService \<Rightarrow> addr \<times> heap" where
  "new_service h s =
     (next_obj h, h\<lparr>objs := (objs h)(next_obj h := s), next_obj := Suc (next_obj h)\<rparr>)"

text \<open>\<open>xs.copy()\<close> and a list display: a new list object.\<close>

definition new_list :: "heap \<Rightarrow> addr list \<Rightarrow> addr \<times> heap" where
  "new_list h xs =
     (next_list h, h\<lparr>lists := (lists h)(next_list h := xs), next_list := Suc (next_list h)\<rparr>)"

definition list_copy :: "heap \<Rightarrow> addr \<Rightarrow> addr \<times> heap" where
  "list_copy h l = new_list h (lists h l)"

text \<open>
  The class attribute \<open>DEFAULT_SERVICES\<close> is built once, when the class body runs:
  four objects and one list holding them. \<open>class_heap\<close> is the store right after
  that; the placeholder fills the addresses nothing has been allocated at.
\<close>

definition placeholder :: IPService where
  "placeholder = \<lparr>name = [], url = [], timeout = 0, enabled = False\<rparr>"

definition DEFAULT_SERVICES :: addr where
  "DEFAULT_SERVICES = 0"

definition class_heap :: heap where
  "class_heap =
     \<lparr>objs = (\<lambda>_. placeholder)
         (0 := \<lparr>name = ''ipify'', url = ''https://api.ipify.org'', timeout = 10, enabled = True\<rparr>,
          1 := \<lparr>name = ''ipinfo'', url = ''https://ipinfo.io/ip'', timeout = 10, enabled = True\<rparr>,
          2 := \<lparr>name = ''ifconfig'', url = ''https://ifconfig.me/ip'', timeout = 10, enabled = True\<rparr>,
          3 := \<lparr>name = ''icanhazip'', url = ''https://icanhazip.com'', timeout = 10, enabled = True\<rparr>),
      next_obj = 4,
      lists = (\<lambda>_. [])(0 := [0, 1, 2, 3]),
      next_list = 1\<rparr>"

subsection \<open>Configuration read by the detector (\<open>utils/config.py\<close>)\<close>

text \<open>
  The detector reads one key, \<open>ip_services\<close>. \<open>ConfigManager.get\<close> looks the key up in
  \<open>_config\<close> and falls back to \<open>_defaults\<close>; the value is a dict from service name to
  a settings dict (an association list here: \<open>items()\<close> iterates in insertion
  order). A value that is not a dict is \<open>NotADict\<close>; a settings dict carries each of
  its three keys or not.
\<close>

datatype service_config =
  NotADict
  | Settings "string option" "int option" "bool option"

record ConfigManager =
  ip_services :: "(string \<times> service_config) list option"

definition default_ip_services :: "(string \<times> service_config) list" where
  "default_ip_services =
     [(''ipify'', Settings (Some ''https://api.ipify.org'') (Some 10) (Some True)),
      (''ipinfo'', Settings (Some ''https://ipinfo.io/ip'') (Some 10) (Some True)),
      (''ifconfig'', Settings (Some ''https://ifconfig.me/ip'') (Some 10) (Some True))]"

text \<open>\<open>ConfigManager()\<close> with no file: \<open>_config = {}\<close>.\<close>

definition new_config :: ConfigManager where
  "new_config = \<lparr>ip_services = None\<rparr>"

text \<open>\<open>self._config.get("ip_services", {})\<close>.\<close>

definition get_ip_services :: "ConfigManager \<Rightarrow> (string \<times> service_config) list" where
  "get_ip_services c = (case ip_services c of Some v \<Rightarrow> v | None \<Rightarrow> default_ip_services)"

subsection \<open>The detector and its registry operations\<close>

record PublicIPDetector =
  services :: addr
  last_used_service :: "string option"
  config :: ConfigManager

text \<open>The registry as its operations read it: the objects of the list, in order.\<close>

definition registry :: "heap \<Rightarrow> PublicIPDetector \<Rightarrow> IPService list" where
  "registry h d = map (objs h) (lists h (services d))"

text \<open>
  \<open>_update_service\<close>: the loop replaces the first slot whose object has the new
  object's name and returns; falling out of the loop appends.
\<close>

fun update_loop :: "(addr \<Rightarrow> IPService) \<Rightarrow> addr \<Rightarrow> addr list \<Rightarrow> addr list" where
  "update_loop ob a [] = [a]"
| "update_loop ob a (x # xs) =
     (if name (ob x) = name (ob a) then a # xs else x # update_loop ob a xs)"

definition update_service :: "heap \<Rightarrow> PublicIPDetector \<Rightarrow> addr \<Rightarrow> heap" where
  "update_service h d a =
     h\<lparr>lists := (lists h)(services d := update_loop (objs h) a (lists h (services d)))\<rparr>"

definition add_service :: "heap \<Rightarrow> PublicIPDetector \<Rightarrow> string \<Rightarrow> string \<Rightarrow> int \<Rightarrow> bool \<Rightarrow> heap" where
  "add_service h d n u t e =
     (let (a, h') = new_service h \<lparr>name = n, url = u, timeout = t, enabled = e\<rparr>
      in update_service h' d a)"

text \<open>\<open>remove_service\<close>: \<open>pop(i)\<close> at the first slot with the name.\<close>

fun remove_loop :: "(addr \<Rightarrow> IPService) \<Rightarrow> string \<Rightarrow> addr list \<Rightarrow> (addr list) option" where
  "remove_loop ob n [] = None"
| "remove_loop ob n (x # xs) =
     (if name (ob x) = n then Some xs else map_option ((#) x) (remove_loop ob n xs))"

definition remove_service :: "heap \<Rightarrow> PublicIPDetector \<Rightarrow> string \<Rightarrow> bool \<times> heap" where
  "remove_service h d n =
     (case remove_loop (objs h) n (lists h (services d)) of
        Some ys \<Rightarrow> (True, h\<lparr>lists := (lists h)(services d := ys)\<rparr>)
      | None \<Rightarrow> (False, h))"

text \<open>
  \<open>_set_service_enabled\<close> assigns the field of the first object with the name, in
  place: every list that holds the object sees the assignment.
\<close>

fun find_service :: "(addr \<Rightarrow> IPService) \<Rightarrow> string \<Rightarrow> addr list \<Rightarrow> addr option" where
  "find_service ob n [] = None"
| "find_service ob n (x # xs) = (if name (ob x) = n then Some x else find_service ob n xs)"

definition set_service_enabled :: "heap \<Rightarrow> PublicIPDetector \<Rightarrow> string \<Rightarrow> bool \<Rightarrow> bool \<times> heap" where
  "set_service_enabled h d n e =
     (case find_service (objs h) n (lists h (services d)) of
        Some a \<Rightarrow> (True, h\<lparr>objs := (objs h)(a := (objs h a)\<lparr>enabled := e\<rparr>)\<rparr>)
      | None \<Rightarrow> (False, h))"

definition enable_service :: "heap \<Rightarrow> PublicIPDetector \<Rightarrow> string \<Rightarrow> bool \<times> heap" where
  "enable_service h d n = set_service_enabled h d n True"

definition disable_service :: "heap \<Rightarrow> PublicIPDetector \<Rightarrow> string \<Rightarrow> bool \<times> heap" where
  "disable_service h d n = set_service_enabled h d n False"

text \<open>\<open>get_available_services\<close>: \<open>self._services.copy()\<close>, a new list of the same objects.\<close>

definition get_available_services :: "heap \<Rightarrow> PublicIPDetector \<Rightarrow> addr \<times> heap" where
  "get_available_services h d = list_copy h (services d)"

text \<open>
  \<open>_load_services_from_config\<close>: one new object per settings dict, missing keys
  defaulted, each handed to \<open>_update_service\<close>; other values are skipped.
\<close>

fun load_loop :: "heap \<Rightarrow> PublicIPDetector \<Rightarrow> (string \<times> service_config) list \<Rightarrow> heap" where
  "load_loop h d [] = h"
| "load_loop h d ((n, NotADict) # cs) = load_loop h d cs"
| "load_loop h d ((n, Settings u t e) # cs) =
     load_loop
       (add_service h d n (case u of Some v \<Rightarrow> v | None \<Rightarrow> [])
          (case t of Some v \<Rightarrow> v | None \<Rightarrow> 10) (case e of Some v \<Rightarrow> v | None \<Rightarrow> True))
       d cs"

definition load_services_from_config :: "heap \<Rightarrow> PublicIPDetector \<Rightarrow> heap" where
  "load_services_from_config h d = load_loop h d (get_ip_services (config d))"

text \<open>
  \<open>__init__(services)\<close>: the caller's list itself when one is given, a copy of
  \<open>DEFAULT_SERVICES\<close> otherwise; then the configuration is merged in.
\<close>

definition init :: "heap \<Rightarrow> addr option \<Rightarrow> PublicIPDetector \<times> heap" where
  "init h arg =
     (let (l, h1) = (case arg of Some given \<Rightarrow> (given, h) | None \<Rightarrow> list_copy h DEFAULT_SERVICES);
          d = \<lparr>services = l, last_used_service = None, config = new_config\<rparr>
      in (d, load_services_from_config h1 d))"

text \<open>
  A detector is well-formed in a store when its list and the objects in it have been
  allocated.
\<close>

definition wf_detector :: "heap \<Rightarrow> PublicIPDetector \<Rightarrow> bool" where
  "wf_detector h d \<longleftrightarrow>
     services d < next_list h \<and> list_all (\<lambda>a. a < next_obj h) (lists h (services d))"

section \<open>Probing and detection\<close>

text \<open>
  Exceptions are values. What the network call raises is a \<open>net_error\<close>:
  \<open>URLError\<close> and its subclass \<open>HTTPError\<close> with their reason, \<open>socket.timeout\<close>
  (the built-in \<open>TimeoutError\<close>) with its message, or any other exception. What a
  method of the detector or of the resolver raises is an \<open>exn\<close>: \<open>NameError\<close>
  carries the unbound name, \<open>FuturesTimeout\<close> is what \<open>as_completed\<close> raises when
  its timeout runs out, and \<open>ValueError\<close> is what \<open>ThreadPoolExecutor\<close> raises for a
  worker limit below one.
\<close>

datatype net_error =
  URLError string
  | HTTPError int string
  | SocketTimeout string
  | OtherException string

datatype exn =
  NameError string
  | FuturesTimeout
  | ValueError string

text \<open>
  A response body is decoded text, a sequence of Unicode code points. \<open>text_of\<close>
  reads a literal as such a sequence.
\<close>

type_synonym unicode = "nat list"

definition text_of :: "string \<Rightarrow> unicode" where
  "text_of s = map of_char s"

text \<open>
  The network is a parameter: \<open>net u t\<close> is what building the request for URL \<open>u\<close>,
  opening it with timeout \<open>t\<close>, reading and decoding the body gives: the decoded
  body or the exception raised on the way.
\<close>

type_synonym network = "string \<Rightarrow> int \<Rightarrow> net_error + unicode"

text \<open>
  \<open>str.strip()\<close> removes leading and trailing whitespace: the code points for which
  \<open>str.isspace\<close> holds.
\<close>

definition is_space :: "nat \<Rightarrow> bool" where
  "is_space c \<longleftrightarrow>
     (9 \<le> c \<and> c \<le> 13) \<or> (28 \<le> c \<and> c \<le> 32) \<or> c = 133 \<or> c = 160 \<or> c = 5760
     \<or> (8192 \<le> c \<and> c \<le> 8202) \<or> c = 8232 \<or> c = 8233 \<or> c = 8239 \<or> c = 8287 \<or> c = 12288"

definition strip :: "unicode \<Rightarrow> unicode" where
  "strip s = rev (dropWhile is_space (rev (dropWhile is_space s)))"

text \<open>Truthiness of an optional string: neither \<open>None\<close> nor empty.\<close>

fun truthy :: "'a list option \<Rightarrow> bool" where
  "truthy None = False"
| "truthy (Some s) = (s \<noteq> [])"

text \<open>
  \<open>query_service\<close> is a function local to \<open>detect_public_ip\<close>. \<open>HTTPError\<close> is a
  subclass of \<open>URLError\<close>, so the first handler takes both.
\<close>

fun query_service :: "network \<Rightarrow> IPService \<Rightarrow> string \<times> unicode option \<times> string option" where
  "query_service net service =
     (case net (url service) (timeout service) of
        Inr body \<Rightarrow> (name service, Some (strip body), None)
      | Inl (URLError reason) \<Rightarrow> (name service, None, Some (''URL error: '' @ reason))
      | Inl (HTTPError code reason) \<Rightarrow> (name service, None, Some (''URL error: '' @ reason))
      | Inl (SocketTimeout msg) \<Rightarrow> (name service, None, Some (''Timeout: '' @ msg))
      | Inl (OtherException msg) \<Rightarrow> (name service, None, Some (''Unexpected error: '' @ msg)))"

text \<open>
  What a detection reports besides its value: the probes made (URL and timeout of each
  \<open>urlopen\<close> call) and the number of tasks handed to a worker pool.
\<close>

record 'a run =
  outcome :: 'a
  probes :: "(string \<times> int) list"
  submitted :: nat
  detector :: PublicIPDetector

text \<open>
  \<open>detect_public_ip\<close>. The pool and \<open>as_completed\<close> are scheduled from outside:
  \<open>order\<close> lists the positions of \<open>enabled_services\<close> in the order their futures
  complete, and \<open>deadline\<close>, when given, is the number of futures that complete before the
  timeout of \<open>as_completed\<close> runs out. Leaving the \<open>with\<close> block waits for every
  submitted task, so every enabled service is probed whatever the result.
\<close>

fun race_loop :: "(string \<times> unicode option \<times> string option) list \<Rightarrow> (string \<times> unicode) option" where
  "race_loop [] = None"
| "race_loop ((service_name, ip, error) # rest) =
     (if truthy ip then Some (service_name, the ip) else race_loop rest)"

definition detect_public_ip ::
  "network \<Rightarrow> nat list \<Rightarrow> nat option \<Rightarrow> heap \<Rightarrow> PublicIPDetector \<Rightarrow> int \<Rightarrow> int
     \<Rightarrow> (exn + unicode option) run" where
  "detect_public_ip net order deadline h d tmo max_workers =
     (let enabled_services = filter enabled (registry h d) in
      if enabled_services = [] then
        \<lparr>outcome = Inr None, probes = [], submitted = 0, detector = d\<rparr>
      else if max_workers \<le> 0 then
        \<lparr>outcome = Inl (ValueError ''max_workers must be greater than 0''), probes = [],
         submitted = 0, detector = d\<rparr>
      else
        let ran = map (\<lambda>i. enabled_services ! i) order;
            made = map (\<lambda>s. (url s, timeout s)) ran;
            seen = (case deadline of None \<Rightarrow> ran | Some k \<Rightarrow> take k ran);
            late = (case deadline of None \<Rightarrow> False | Some k \<Rightarrow> k < length ran)
        in case race_loop (map (query_service net) seen) of
             Some (service_name, ip) \<Rightarrow>
               \<lparr>outcome = Inr (Some ip), probes = made, submitted = length enabled_services,
                detector = d\<lparr>last_used_service := Some service_name\<rparr>\<rparr>
           | None \<Rightarrow>
               \<lparr>outcome = (if late then Inl FuturesTimeout else Inr None), probes = made,
                submitted = length enabled_services, detector = d\<rparr>)"

text \<open>
  \<open>detect_public_ip_sync\<close>. In the \<open>try\<close> block, after the body has been read and
  stripped, line 254 assigns \<open>service_name\<close> to \<open>self._last_used_service\<close>. No
  \<open>service_name\<close> is bound in this function or in the module (the loop variable is
  \<open>service\<close>), so evaluating it raises \<open>NameError\<close> before the \<open>return\<close> is reached.
  Both handlers \<open>continue\<close>: the first takes \<open>URLError\<close>, \<open>HTTPError\<close> and
  \<open>socket.timeout\<close>, the second every other \<open>Exception\<close>, \<open>NameError\<close> included.
  \<open>sync_try\<close> is the \<open>try\<close> block: the address it returns, or what it raises.
\<close>

definition sync_try :: "network \<Rightarrow> int \<Rightarrow> IPService \<Rightarrow> (net_error + exn) + unicode" where
  "sync_try net tmo service =
     (case net (url service) (min (timeout service) tmo) of
        Inl e \<Rightarrow> Inl (Inl e)
      | Inr body \<Rightarrow> (let ip = strip body in Inl (Inr (NameError ''service_name''))))"

fun sync_loop ::
  "network \<Rightarrow> int \<Rightarrow> IPService list \<Rightarrow> (string \<times> int) list \<Rightarrow> unicode option \<times> (string \<times> int) list" where
  "sync_loop net tmo [] made = (None, made)"
| "sync_loop net tmo (service # rest) made =
     (if \<not> enabled service then sync_loop net tmo rest made
      else
        (case sync_try net tmo service of
           Inr ip \<Rightarrow> (Some ip, made @ [(url service, min (timeout service) tmo)])
         | Inl e \<Rightarrow> sync_loop net tmo rest (made @ [(url service, min (timeout service) tmo)])))"

definition detect_public_ip_sync ::
  "network \<Rightarrow> heap \<Rightarrow> PublicIPDetector \<Rightarrow> int \<Rightarrow> (unicode option) run" where
  "detect_public_ip_sync net h d tmo =
     (let (r, made) = sync_loop net tmo (registry h d) [] in
      \<lparr>outcome = r, probes = made, submitted = 0, detector = d\<rparr>)"

text \<open>
  \<open>test_service\<close>. For the first service with the name, line 284 calls
  \<open>query_service\<close>, which is local to \<open>detect_public_ip\<close> and bound nowhere else:
  the call raises \<open>NameError\<close>, and nothing in \<open>test_service\<close> handles it.
\<close>

definition test_service ::
  "network \<Rightarrow> heap \<Rightarrow> PublicIPDetector \<Rightarrow> string \<Rightarrow> exn + (bool \<times> unicode option \<times> string option)" where
  "test_service net h d n =
     (case find_service (objs h) n (lists h (services d)) of
        Some a \<Rightarrow> Inl (NameError ''query_service'')
      | None \<Rightarrow> Inr (False, None, Some ''Service not found''))"

section \<open>Name resolution of \<open>services/resolution.py\<close>\<close>

text \<open>
  Times are what \<open>time()\<close> returns: doubles, taken here as the real numbers they
  stand for. The difference of two times is computed by the machine, in floating
  point, and is a parameter \<open>sub\<close> of the model: what is proved holds whatever the
  machine's subtraction returns. \<open>double_sub\<close> is that subtraction for IEEE binary64
  in the default rounding mode, the exact difference rounded to 53 significant bits,
  ties to even (for results in the normal range; times are). Comparing a double with
  an \<open>int\<close>, as \<open>is_expired\<close> does, is exact in Python.
\<close>

type_synonym subtraction = "real \<Rightarrow> real \<Rightarrow> real"

definition round_half_even :: "real \<Rightarrow> int" where
  "round_half_even x =
     (let f = \<lfloor>x\<rfloor> in
      if x - of_int f < 1 / 2 then f
      else if x - of_int f > 1 / 2 then f + 1
      else if even f then f else f + 1)"

definition double_round :: "real \<Rightarrow> real" where
  "double_round x =
     (if x = 0 then 0
      else let k = \<lfloor>log 2 \<bar>x\<bar>\<rfloor> - 52
           in of_int (round_half_even (x / 2 powr of_int k)) * 2 powr of_int k)"

definition double_sub :: subtraction where
  "double_sub x y = double_round (x - y)"

record DNSRecord =
  hostname :: string
  ip_address :: string
  aliases :: "string list"
  record_type :: string
  timestamp :: real

text \<open>\<open>is_expired\<close>, with the value \<open>time()\<close> returns at the call as \<open>now\<close>.\<close>

definition is_expired :: "subtraction \<Rightarrow> real \<Rightarrow> DNSRecord \<Rightarrow> int \<Rightarrow> bool" where
  "is_expired sub now r ttl \<longleftrightarrow> sub now (timestamp r) > real_of_int ttl"

record DNSResolver =
  enable_cache :: bool
  default_ttl :: int
  cache :: "string \<rightharpoonup> DNSRecord"

text \<open>
  \<open>DNSResolver(enable_cache, default_ttl)\<close>. After storing its arguments,
  \<open>__init__\<close> calls \<open>_load_config\<close>, which reads the key \<open>dns_resolver\<close> of a
  \<open>ConfigManager()\<close> made without a file. Such a manager answers from its defaults,
  the dict \<open>default_dns_resolver\<close>, and each field found there replaces the argument.
\<close>

definition default_dns_resolver :: "bool option \<times> int option" where
  "default_dns_resolver = (Some True, Some 300)"

definition new_resolver :: "bool \<Rightarrow> int \<Rightarrow> DNSResolver" where
  "new_resolver ec ttl =
     (let cache_config = default_dns_resolver in
      \<lparr>enable_cache = (case fst cache_config of Some v \<Rightarrow> v | None \<Rightarrow> ec),
       default_ttl = (case snd cache_config of Some v \<Rightarrow> v | None \<Rightarrow> ttl),
       cache = Map.empty\<rparr>)"

definition get_from_cache :: "subtraction \<Rightarrow> real \<Rightarrow> DNSResolver \<Rightarrow> string \<Rightarrow> DNSRecord option \<times> DNSResolver" where
  "get_from_cache sub now st h =
     (if \<not> enable_cache st then (None, st)
      else
        (case cache st h of
           None \<Rightarrow> (None, st)
         | Some record \<Rightarrow>
             if \<not> is_expired sub now record (default_ttl st) then (Some record, st)
             else (None, st\<lparr>cache := (cache st)(h := None)\<rparr>)))"

definition store_in_cache :: "real \<Rightarrow> DNSResolver \<Rightarrow> string \<Rightarrow> string \<Rightarrow> string list \<Rightarrow> DNSResolver" where
  "store_in_cache now st h ip als =
     (if \<not> enable_cache st then st
      else
        st\<lparr>cache := (cache st)
             (h \<mapsto> \<lparr>hostname = h, ip_address = ip, aliases = als, record_type = ''A'',
                    timestamp = now\<rparr>)\<rparr>)"

definition clear_cache :: "DNSResolver \<Rightarrow> DNSResolver" where
  "clear_cache st = st\<lparr>cache := Map.empty\<rparr>"

definition set_cache_ttl :: "DNSResolver \<Rightarrow> int \<Rightarrow> DNSResolver" where
  "set_cache_ttl st ttl = st\<lparr>default_ttl := ttl\<rparr>"

text \<open>
  The forward-lookup primitive, \<open>socket.getaddrinfo\<close>, is a parameter. Each item of
  its result is the tuple \<open>(family, type, proto, canonname, sockaddr)\<close>; \<open>family\<close> is
  a member of the enumeration \<open>AddressFamily\<close>, whose \<open>name\<close> attribute is the
  member's name, and \<open>sockaddr\<close> begins with the address.
\<close>

datatype AddressFamily = AF_UNSPEC | AF_UNIX | AF_INET | AF_INET6

fun family_name :: "AddressFamily \<Rightarrow> string" where
  "family_name AF_UNSPEC = ''AF_UNSPEC''"
| "family_name AF_UNIX = ''AF_UNIX''"
| "family_name AF_INET = ''AF_INET''"
| "family_name AF_INET6 = ''AF_INET6''"

type_synonym addrinfo = "AddressFamily \<times> nat \<times> nat \<times> string \<times> (string \<times> nat)"

text \<open>\<open>item[0]\<close>, \<open>item[3]\<close> and \<open>item[4][0]\<close>.\<close>

fun item_family :: "addrinfo \<Rightarrow> AddressFamily" where
  "item_family (fam, ty, proto, canonname, sockaddr) = fam"

fun item_canonname :: "addrinfo \<Rightarrow> string" where
  "item_canonname (fam, ty, proto, canonname, sockaddr) = canonname"

fun item_address :: "addrinfo \<Rightarrow> string" where
  "item_address (fam, ty, proto, canonname, sockaddr) = fst sockaddr"

datatype lookup_error = gaierror string | lookup_failure string

type_synonym lookup = "string \<Rightarrow> AddressFamily \<Rightarrow> lookup_error + addrinfo list"

text \<open>
  \<open>resolve\<close>. \<open>t_get\<close> is the time read when the cached record is tested, \<open>t_put\<close>
  the time read when the new record is made. Both handlers return \<open>None\<close>.
\<close>

definition resolve ::
  "subtraction \<Rightarrow> lookup \<Rightarrow> real \<Rightarrow> real \<Rightarrow> DNSResolver \<Rightarrow> string \<Rightarrow> AddressFamily \<Rightarrow> string option \<times> DNSResolver" where
  "resolve sub getaddrinfo t_get t_put st h fam =
     (let (cached, st1) = (if enable_cache st then get_from_cache sub t_get st h else (None, st)) in
      case cached of
        Some record \<Rightarrow> (Some (ip_address record), st1)
      | None \<Rightarrow>
          (case getaddrinfo h fam of
             Inl e \<Rightarrow> (None, st1)
           | Inr info \<Rightarrow>
               let ip_addresses = map item_address info;
                   ip = (case ip_addresses of [] \<Rightarrow> None | a # _ \<Rightarrow> Some a);
                   st2 = (if truthy ip \<and> enable_cache st1
                          then store_in_cache t_put st1 h (the ip)
                                 (map (\<lambda>item. family_name (item_family item)) info)
                          else st1)
               in (ip, st2)))"

text \<open>\<open>resolve_all\<close>: the loop keeps the first occurrence of each address.\<close>

fun distinct_loop :: "string list \<Rightarrow> addrinfo list \<Rightarrow> string list" where
  "distinct_loop ip_addresses [] = ip_addresses"
| "distinct_loop ip_addresses (item # rest) =
     (let ip = item_address item
      in distinct_loop (if ip \<notin> set ip_addresses then ip_addresses @ [ip] else ip_addresses) rest)"

definition resolve_all ::
  "subtraction \<Rightarrow> lookup \<Rightarrow> real \<Rightarrow> real \<Rightarrow> DNSResolver \<Rightarrow> string \<Rightarrow> AddressFamily \<Rightarrow> string list \<times> DNSResolver" where
  "resolve_all sub getaddrinfo t_get t_put st h fam =
     (let (cached, st1) = (if enable_cache st then get_from_cache sub t_get st h else (None, st)) in
      case cached of
        Some record \<Rightarrow> ([ip_address record], st1)
      | None \<Rightarrow>
          (case getaddrinfo h fam of
             Inl e \<Rightarrow> ([], st1)
           | Inr info \<Rightarrow>
               let ip_addresses = distinct_loop [] info;
                   st2 = (if ip_addresses \<noteq> [] \<and> enable_cache st1
                          then store_in_cache t_put st1 h (hd ip_addresses)
                                 (map (\<lambda>item. family_name (item_family item)) info)
                          else st1)
               in (ip_addresses, st2)))"





section \<open>Observing and sharing registries\<close>

text \<open>
  What a caller reads off a list of services, for instance the one
  \<open>get_available_services\<close> returned: the name and the enabled flag of each entry.
\<close>

definition shown :: "heap \<Rightarrow> addr \<Rightarrow> (string \<times> bool) list" where
  "shown h l = map (\<lambda>a. (name (objs h a), enabled (objs h a))) (lists h l)"

text \<open>
  The class-level list is as the class body left it: \<open>DEFAULT_SERVICES\<close> holds the
  four objects made there, under their names. No operation of the detector assigns to
  that list or to a name.
\<close>

definition class_intact :: "heap \<Rightarrow> bool" where
  "class_intact h \<longleftrightarrow>
     lists h DEFAULT_SERVICES = [0, 1, 2, 3]
     \<and> map (\<lambda>a. name (objs h a)) [0, 1, 2, 3] = [''ipify'', ''ipinfo'', ''ifconfig'', ''icanhazip'']
     \<and> 4 \<le> next_obj h \<and> 1 \<le> next_list h"

text \<open>The objects \<open>_load_services_from_config\<close> makes from the default configuration.\<close>

definition from_config :: "nat \<Rightarrow> IPService" where
  "from_config k =
     (if k = 0 then \<lparr>name = ''ipify'', url = ''https://api.ipify.org'', timeout = 10, enabled = True\<rparr>
      else if k = 1 then \<lparr>name = ''ipinfo'', url = ''https://ipinfo.io/ip'', timeout = 10, enabled = True\<rparr>
      else \<lparr>name = ''ifconfig'', url = ''https://ifconfig.me/ip'', timeout = 10, enabled = True\<rparr>)"

text \<open>
  What a caller can do with a list it was handed: assign a field of the entry at a
  position, or change the list itself (\<open>append\<close>, \<open>pop\<close>, item assignment,
  \<open>clear\<close>). A position out of range raises \<open>IndexError\<close> and changes nothing.
\<close>

datatype field_assignment =
  AssignName string | AssignUrl string | AssignTimeout int | AssignEnabled bool

fun assign :: "field_assignment \<Rightarrow> IPService \<Rightarrow> IPService" where
  "assign (AssignName v) s = s\<lparr>name := v\<rparr>"
| "assign (AssignUrl v) s = s\<lparr>url := v\<rparr>"
| "assign (AssignTimeout v) s = s\<lparr>timeout := v\<rparr>"
| "assign (AssignEnabled v) s = s\<lparr>enabled := v\<rparr>"

datatype mutation =
  SetField nat field_assignment
  | Append addr
  | Pop nat
  | SetItem nat addr
  | Clear

fun list_level :: "mutation \<Rightarrow> bool" where
  "list_level (SetField i fa) = False"
| "list_level m = True"

fun mutate :: "heap \<Rightarrow> addr \<Rightarrow> mutation \<Rightarrow> heap" where
  "mutate h l (SetField i fa) =
     (if i < length (lists h l)
      then h\<lparr>objs := (objs h)(lists h l ! i := assign fa (objs h (lists h l ! i)))\<rparr>
      else h)"
| "mutate h l (Append a) = h\<lparr>lists := (lists h)(l := lists h l @ [a])\<rparr>"
| "mutate h l (Pop i) =
     (if i < length (lists h l)
      then h\<lparr>lists := (lists h)(l := take i (lists h l) @ drop (Suc i) (lists h l))\<rparr>
      else h)"
| "mutate h l (SetItem i a) =
     (if i < length (lists h l) then h\<lparr>lists := (lists h)(l := (lists h l)[i := a])\<rparr> else h)"
| "mutate h l Clear = h\<lparr>lists := (lists h)(l := [])\<rparr>"

text \<open>
  The registry of a detector is as default construction left it: a list of its own,
  holding three objects of its own under the names \<open>ipify\<close>, \<open>ipinfo\<close> and
  \<open>ifconfig\<close> (made by \<open>_load_services_from_config\<close>) and, last, the class-level
  \<open>icanhazip\<close> object. The flags of the entries are free: \<open>enable_service\<close> and
  \<open>disable_service\<close> keep this shape, \<open>add_service\<close> and \<open>remove_service\<close>
  need not.
\<close>

definition default_shape :: "heap \<Rightarrow> PublicIPDetector \<Rightarrow> bool" where
  "default_shape h d \<longleftrightarrow>
     services d \<noteq> DEFAULT_SERVICES \<and> services d < next_list h
     \<and> length (lists h (services d)) = 4 \<and> lists h (services d) ! 3 = 3
     \<and> list_all (\<lambda>a. 3 < a \<and> a < next_obj h) (take 3 (lists h (services d)))
     \<and> map (\<lambda>a. name (objs h a)) (take 3 (lists h (services d)))
         = [''ipify'', ''ipinfo'', ''ifconfig'']"

text \<open>
  Two detectors are apart when their registries are different lists and share none of
  the first three entries, as is the case for any two that were constructed separately.
\<close>

definition apart :: "heap \<Rightarrow> PublicIPDetector \<Rightarrow> PublicIPDetector \<Rightarrow> bool" where
  "apart h d d' \<longleftrightarrow>
     services d \<noteq> services d'
     \<and> set (take 3 (lists h (services d))) \<inter> set (take 3 (lists h (services d'))) = {}"

section \<open>Example states\<close>

text \<open>
  The first detector constructed with no argument, \<open>PublicIPDetector()\<close>, and the store
  after its construction.
\<close>

definition default_detector :: PublicIPDetector where
  "default_detector = fst (init class_heap None)"

definition default_heap :: heap where
  "default_heap = snd (init class_heap None)"

text \<open>A second detector constructed with no argument after the first one.\<close>

definition second_detector :: PublicIPDetector where
  "second_detector = fst (init default_heap None)"

definition two_detector_heap :: heap where
  "two_detector_heap = snd (init default_heap None)"

text \<open>The same detector after it has disabled each of its four services.\<close>

definition all_disabled_heap :: heap where
  "all_disabled_heap =
     snd (disable_service (snd (disable_service (snd (disable_service (snd (disable_service
       default_heap default_detector ''ipify'')) default_detector ''ipinfo''))
       default_detector ''ifconfig'')) default_detector ''icanhazip'')"

text \<open>
  A network in which the first default service cannot be reached, the second and the
  third answer with an address (the second with a trailing newline), and the fourth
  times out.
\<close>

definition example_net :: network where
  "example_net u t =
     (if u = ''https://api.ipify.org'' then Inl (URLError ''Network is unreachable'')
      else if u = ''https://ipinfo.io/ip'' then Inr (text_of ''203.0.113.7'' @ [10])
      else if u = ''https://ifconfig.me/ip'' then Inr (text_of ''198.51.100.9'')
      else Inl (SocketTimeout ''timed out''))"

text \<open>
  A forward lookup that knows three hostnames: \<open>example.test\<close> has two addresses, the
  first reported twice; \<open>a\<close> has one; \<open>b\<close> fails, as every other name does. The
  resolver passes no flags, so no canonical name is reported.
\<close>

definition example_lookup :: lookup where
  "example_lookup h fam =
     (if h = ''example.test'' then
        Inr [(AF_INET, 1, 6, [], (''93.184.216.34'', 0)),
             (AF_INET6, 1, 6, [], (''2606:2800:220:1::'', 0)),
             (AF_INET, 1, 6, [], (''93.184.216.34'', 0))]
      else if h = ''a'' then Inr [(AF_INET, 1, 6, [], (''192.0.2.1'', 0))]
      else Inl (gaierror ''Name or service not known''))"

text \<open>A resolver right after construction.\<close>

definition example_resolver :: DNSResolver where
  "example_resolver = new_resolver True 300"

section \<open>Invariant and schedule of the resolver\<close>

text \<open>
  Records enter the cache through \<open>_store_in_cache\<close> only, which does nothing when
  the cache is disabled, and no operation changes \<open>_enable_cache\<close> after
  construction: a resolver whose cache is disabled holds no record.
\<close>

definition resolver_inv :: "DNSResolver \<Rightarrow> bool" where
  "resolver_inv st \<longleftrightarrow> enable_cache st \<or> cache st = Map.empty"




section \<open>Properties of the registry\<close>

lemmas heap_defs = init_def list_copy_def new_list_def load_services_from_config_def
  get_ip_services_def new_config_def default_ip_services_def add_service_def new_service_def
  update_service_def class_heap_def DEFAULT_SERVICES_def default_detector_def default_heap_def

lemma default_detector_services: "services default_detector = 1"
  by (simp add: heap_defs)

lemma default_heap_lists:
  "lists default_heap 1 = [4, 5, 6, 3]"
  "lists default_heap 0 = [0, 1, 2, 3]"
  "next_obj default_heap = 7"
  "next_list default_heap = 2"
  "lists default_heap (Suc 0) = [4, 5, 6, 3]"
  by (simp_all add: heap_defs)

lemma default_registry:
  "registry default_heap default_detector =
    [\<lparr>name = ''ipify'', url = ''https://api.ipify.org'', timeout = 10, enabled = True\<rparr>,
     \<lparr>name = ''ipinfo'', url = ''https://ipinfo.io/ip'', timeout = 10, enabled = True\<rparr>,
     \<lparr>name = ''ifconfig'', url = ''https://ifconfig.me/ip'', timeout = 10, enabled = True\<rparr>,
     \<lparr>name = ''icanhazip'', url = ''https://icanhazip.com'', timeout = 10, enabled = True\<rparr>]"
  by (simp add: registry_def heap_defs)

lemma default_heap_objs:
  "objs default_heap 3 = \<lparr>name = ''icanhazip'', url = ''https://icanhazip.com'', timeout = 10, enabled = True\<rparr>"
  "objs default_heap 4 = \<lparr>name = ''ipify'', url = ''https://api.ipify.org'', timeout = 10, enabled = True\<rparr>"
  "objs default_heap 5 = \<lparr>name = ''ipinfo'', url = ''https://ipinfo.io/ip'', timeout = 10, enabled = True\<rparr>"
  "objs default_heap 6 = \<lparr>name = ''ifconfig'', url = ''https://ifconfig.me/ip'', timeout = 10, enabled = True\<rparr>"
  by (simp_all add: heap_defs)

lemma default_wf: "wf_detector default_heap default_detector"
  unfolding wf_detector_def default_detector_services default_heap_lists by simp

lemma update_loop_absent:
  "\<forall>x\<in>set xs. name (ob x) \<noteq> name (ob a) \<Longrightarrow> update_loop ob a xs = xs @ [a]"
  by (induction xs) auto

lemma update_loop_found:
  "\<exists>x\<in>set xs. name (ob x) = name (ob a) \<Longrightarrow>
   \<exists>i<length xs. name (ob (xs ! i)) = name (ob a) \<and> (\<forall>j<i. name (ob (xs ! j)) \<noteq> name (ob a))
      \<and> update_loop ob a xs = xs[i := a]"
proof (induction xs)
  case Nil
  then show ?case by simp
next
  case (Cons x xs)
  show ?case
  proof (cases "name (ob x) = name (ob a)")
    case True
    then have "name (ob ((x # xs) ! 0)) = name (ob a)
      \<and> (\<forall>j<0. name (ob ((x # xs) ! j)) \<noteq> name (ob a))
      \<and> update_loop ob a (x # xs) = (x # xs)[0 := a]" by simp
    then show ?thesis by (intro exI[of _ 0]) simp
  next
    case False
    with Cons.prems have "\<exists>y\<in>set xs. name (ob y) = name (ob a)" by auto
    from Cons.IH[OF this] obtain i where i: "i < length xs" "name (ob (xs ! i)) = name (ob a)"
      "\<forall>j<i. name (ob (xs ! j)) \<noteq> name (ob a)" "update_loop ob a xs = xs[i := a]" by blast
    have "\<forall>j<Suc i. name (ob ((x # xs) ! j)) \<noteq> name (ob a)"
      using False i(3) by (auto simp: less_Suc_eq_0_disj)
    with i False show ?thesis by (intro exI[of _ "Suc i"]) simp
  qed
qed

lemma registry_add_service:
  "registry (add_service h d n u t e) d =
     map ((objs h)(next_obj h := \<lparr>name = n, url = u, timeout = t, enabled = e\<rparr>))
       (update_loop ((objs h)(next_obj h := \<lparr>name = n, url = u, timeout = t, enabled = e\<rparr>))
          (next_obj h) (lists h (services d)))"
  by (simp add: registry_def add_service_def new_service_def update_service_def)

text \<open>
  C6. Adding a service to a well-formed registry: when no entry has the name, the new
  entry is appended; when one has, the first such entry (position \<open>i\<close>) is replaced by
  the new entry in place, which leaves the length and every other position as they
  were and installs the new URL, timeout and enabled flag at \<open>i\<close>.
\<close>

theorem add_service_replace_or_append:
  assumes wf: "wf_detector h d"
  shows "((\<forall>x\<in>set (registry h d). name x \<noteq> n) \<longrightarrow>
            registry (add_service h d n u t e) d
              = registry h d @ [\<lparr>name = n, url = u, timeout = t, enabled = e\<rparr>])
       \<and> ((\<exists>x\<in>set (registry h d). name x = n) \<longrightarrow>
            (\<exists>i<length (registry h d).
               name (registry h d ! i) = n \<and> (\<forall>j<i. name (registry h d ! j) \<noteq> n) \<and>
               registry (add_service h d n u t e) d
                 = (registry h d)[i := \<lparr>name = n, url = u, timeout = t, enabled = e\<rparr>]))"
proof -
  define s where "s = \<lparr>name = n, url = u, timeout = t, enabled = e\<rparr>"
  define a where "a = next_obj h"
  define ob where "ob = (objs h)(a := s)"
  define xs where "xs = lists h (services d)"
  from wf have fresh: "list_all (\<lambda>x. x < a) xs" by (simp add: wf_detector_def a_def xs_def)
  then have same: "\<forall>x\<in>set xs. ob x = objs h x" by (auto simp: list_all_iff ob_def)
  have reg: "registry (add_service h d n u t e) d = map ob (update_loop ob a xs)"
    using registry_add_service[of h d n u t e] by (simp add: ob_def a_def s_def xs_def)
  have old: "registry h d = map (objs h) xs" by (simp add: registry_def xs_def)
  have nm: "name (ob a) = n" and oba: "ob a = s" by (simp_all add: ob_def s_def)
  have mf: "map ob xs = registry h d" using same by (simp add: old)
  have "(\<forall>x\<in>set (registry h d). name x \<noteq> n) \<longrightarrow>
            registry (add_service h d n u t e) d = registry h d @ [s]"
  proof
    assume "\<forall>x\<in>set (registry h d). name x \<noteq> n"
    then have "\<forall>x\<in>set xs. name (ob x) \<noteq> name (ob a)" by (simp add: mf[symmetric] nm)
    then have "update_loop ob a xs = xs @ [a]" by (rule update_loop_absent)
    then show "registry (add_service h d n u t e) d = registry h d @ [s]"
      by (simp add: reg mf oba)
  qed
  moreover have "(\<exists>x\<in>set (registry h d). name x = n) \<longrightarrow>
            (\<exists>i<length (registry h d).
               name (registry h d ! i) = n \<and> (\<forall>j<i. name (registry h d ! j) \<noteq> n) \<and>
               registry (add_service h d n u t e) d = (registry h d)[i := s])"
  proof
    assume "\<exists>x\<in>set (registry h d). name x = n"
    then have "\<exists>x\<in>set xs. name (ob x) = name (ob a)" by (simp add: mf[symmetric] nm)
    from update_loop_found[OF this] obtain i where i: "i < length xs"
      "name (ob (xs ! i)) = name (ob a)" "\<forall>j<i. name (ob (xs ! j)) \<noteq> name (ob a)"
      "update_loop ob a xs = xs[i := a]" by blast
    have len: "length (registry h d) = length xs" by (simp add: old)
    have at: "registry h d ! j = ob (xs ! j)" if "j < length xs" for j
      using that by (simp add: mf[symmetric])
    have 1: "name (registry h d ! i) = n" using i(1,2) by (simp add: at nm)
    have 2: "\<forall>j<i. name (registry h d ! j) \<noteq> n"
    proof (intro allI impI)
      fix j assume "j < i"
      then have "j < length xs" using i(1) by simp
      with i(3) \<open>j < i\<close> show "name (registry h d ! j) \<noteq> n" by (simp add: at nm)
    qed
    have 3: "registry (add_service h d n u t e) d = (registry h d)[i := s]"
      by (simp add: reg i(4) map_update mf oba)
    from i(1) 1 2 3 len show "\<exists>i<length (registry h d). name (registry h d ! i) = n \<and>
        (\<forall>j<i. name (registry h d ! j) \<noteq> n) \<and>
        registry (add_service h d n u t e) d = (registry h d)[i := s]"
      by (intro exI[of _ i]) simp
  qed
  ultimately show ?thesis unfolding s_def by blast
qed

theorem add_service_replace_or_append_witness:
  "wf_detector default_heap default_detector
   \<and> registry (add_service default_heap default_detector ''ipinfo'' ''https://ipinfo.io/json'' 5 False)
       default_detector
     = (registry default_heap default_detector)
         [1 := \<lparr>name = ''ipinfo'', url = ''https://ipinfo.io/json'', timeout = 5, enabled = False\<rparr>]
   \<and> registry (add_service default_heap default_detector ''myip'' ''https://myip.example'' 3 True)
       default_detector
     = registry default_heap default_detector
         @ [\<lparr>name = ''myip'', url = ''https://myip.example'', timeout = 3, enabled = True\<rparr>]"
  using add_service_replace_or_append
      [OF default_wf, of "''ipinfo''" "''https://ipinfo.io/json''" 5 False]
    add_service_replace_or_append
      [OF default_wf, of "''myip''" "''https://myip.example''" 3 True]
    default_wf
  unfolding registry_add_service default_registry default_detector_services default_heap_lists
  by (simp add: default_heap_objs)

section \<open>Properties of detection\<close>

lemma all_disabled_registry:
  "registry all_disabled_heap default_detector =
    [\<lparr>name = ''ipify'', url = ''https://api.ipify.org'', timeout = 10, enabled = False\<rparr>,
     \<lparr>name = ''ipinfo'', url = ''https://ipinfo.io/ip'', timeout = 10, enabled = False\<rparr>,
     \<lparr>name = ''ifconfig'', url = ''https://ifconfig.me/ip'', timeout = 10, enabled = False\<rparr>,
     \<lparr>name = ''icanhazip'', url = ''https://icanhazip.com'', timeout = 10, enabled = False\<rparr>]"
  by (simp add: all_disabled_heap_def registry_def disable_service_def set_service_enabled_def
      default_detector_services default_heap_lists default_heap_objs)

lemma sync_loop_disabled:
  "\<forall>s\<in>set ss. \<not> enabled s \<Longrightarrow> sync_loop net tmo ss made = (None, made)"
  by (induction ss) auto

text \<open>
  C5. When the registry is empty or every entry is disabled, both detections return
  \<open>None\<close> with no probe made, and the concurrent one hands no task to a pool.
\<close>

theorem no_enabled_service_no_probe:
  assumes "\<forall>s\<in>set (registry h d). \<not> enabled s"
  shows "detect_public_ip net order deadline h d tmo max_workers
           = \<lparr>outcome = Inr None, probes = [], submitted = 0, detector = d\<rparr>
       \<and> detect_public_ip_sync net h d tmo
           = \<lparr>outcome = None, probes = [], submitted = 0, detector = d\<rparr>"
proof -
  from assms have "filter enabled (registry h d) = []" by (simp add: filter_empty_conv)
  then have "detect_public_ip net order deadline h d tmo max_workers
           = \<lparr>outcome = Inr None, probes = [], submitted = 0, detector = d\<rparr>"
    by (simp add: detect_public_ip_def)
  moreover have "detect_public_ip_sync net h d tmo
           = \<lparr>outcome = None, probes = [], submitted = 0, detector = d\<rparr>"
    using sync_loop_disabled[OF assms, of net tmo "[]"] by (simp add: detect_public_ip_sync_def)
  ultimately show ?thesis by simp
qed

theorem no_enabled_service_no_probe_witness:
  "list_all (\<lambda>s. \<not> enabled s) (registry all_disabled_heap default_detector)
   \<and> detect_public_ip example_net [0, 1, 2, 3] None all_disabled_heap default_detector 10 3
       = \<lparr>outcome = Inr None, probes = [], submitted = 0, detector = default_detector\<rparr>
   \<and> detect_public_ip_sync example_net all_disabled_heap default_detector 10
       = \<lparr>outcome = None, probes = [], submitted = 0, detector = default_detector\<rparr>"
proof -
  have dis: "\<forall>s\<in>set (registry all_disabled_heap default_detector). \<not> enabled s"
    by (simp add: all_disabled_registry)
  from no_enabled_service_no_probe[OF dis, of example_net "[0, 1, 2, 3]" None 10 3]
  show ?thesis by (simp add: all_disabled_registry)
qed

text \<open>
  Whatever the registry and the network, the sequential detection returns \<open>None\<close>:
  a probe that succeeds ends in the \<open>NameError\<close> of line 254, which the second
  handler turns into \<open>continue\<close>.
\<close>

lemma sync_loop_never_succeeds: "fst (sync_loop net tmo ss made) = None"
  by (induction ss arbitrary: made) (auto simp: sync_try_def split: sum.splits)

lemma detect_public_ip_sync_never_succeeds:
  "outcome (detect_public_ip_sync net h d tmo) = None"
  using sync_loop_never_succeeds[of net tmo "registry h d" "[]"]
  by (auto simp: detect_public_ip_sync_def split: prod.splits)

text \<open>
  C1, at the registry of a default detector and \<open>example_net\<close>: the first service
  fails, the second and the third would succeed (the local \<open>query_service\<close> of the
  concurrent path returns the second one's trimmed body). The sequential detection
  probes all four services in registry order, loses the second one's success to the
  \<open>NameError\<close>, and returns \<open>None\<close> where the claim promises \<open>203.0.113.7\<close>.
\<close>

theorem detect_public_ip_sync_loses_success:
  "query_service example_net (registry default_heap default_detector ! 1)
     = (''ipinfo'', Some (text_of ''203.0.113.7''), None)
   \<and> sync_try example_net 10 (registry default_heap default_detector ! 1)
     = Inl (Inr (NameError ''service_name''))
   \<and> detect_public_ip_sync example_net default_heap default_detector 10
     = \<lparr>outcome = None,
        probes = [(''https://api.ipify.org'', 10), (''https://ipinfo.io/ip'', 10),
                  (''https://ifconfig.me/ip'', 10), (''https://icanhazip.com'', 10)],
        submitted = 0, detector = default_detector\<rparr>"
  by (simp add: detect_public_ip_sync_def default_registry sync_try_def example_net_def
      strip_def is_space_def text_of_def)

text \<open>
  For a name the registry holds, \<open>test_service\<close> raises; for any other name it
  returns the triple \<open>(False, None, "Service not found")\<close>.
\<close>

lemma find_service_Some_iff:
  "(\<exists>a. find_service ob n xs = Some a) \<longleftrightarrow> n \<in> name ` ob ` set xs"
  by (induction xs) auto

lemma test_service_cases:
  "test_service net h d n =
     (if n \<in> name ` set (registry h d) then Inl (NameError ''query_service'')
      else Inr (False, None, Some ''Service not found''))"
proof (cases "find_service (objs h) n (lists h (services d))")
  case None
  then have "n \<notin> name ` objs h ` set (lists h (services d))"
    using find_service_Some_iff[of "objs h" n "lists h (services d)"] by simp
  with None show ?thesis by (simp add: test_service_def registry_def image_image)
next
  case (Some a)
  then have "n \<in> name ` objs h ` set (lists h (services d))"
    using find_service_Some_iff[of "objs h" n "lists h (services d)"] by blast
  with Some show ?thesis by (simp add: test_service_def registry_def image_image)
qed

text \<open>
  C2, at a default detector: testing the service \<open>ipify\<close>, which the registry holds,
  raises \<open>NameError\<close> instead of returning a triple; a name the registry does not
  hold gives the triple the claim states.
\<close>

theorem test_service_raises_name_error:
  "test_service example_net default_heap default_detector ''ipify''
     = Inl (NameError ''query_service'')
   \<and> test_service example_net default_heap default_detector ''nosuch''
     = Inr (False, None, Some ''Service not found'')"
  by (simp add: test_service_def default_detector_services default_heap_lists default_heap_objs)

section \<open>Sharing between default-constructed detectors\<close>

lemma init_default:
  assumes "class_intact h"
  shows "services (fst (init h None)) = next_list h"
    and "next_list (snd (init h None)) = Suc (next_list h)"
    and "next_obj (snd (init h None)) = next_obj h + 3"
    and "lists (snd (init h None)) = (lists h)(next_list h := [next_obj h, next_obj h + 1, next_obj h + 2, 3])"
    and "objs (snd (init h None)) = (objs h)(next_obj h := from_config 0, next_obj h + 1 := from_config 1, next_obj h + 2 := from_config 2)"
  using assms
  by (auto simp: class_intact_def init_def list_copy_def new_list_def load_services_from_config_def
      get_ip_services_def new_config_def default_ip_services_def add_service_def new_service_def
      update_service_def DEFAULT_SERVICES_def from_config_def fun_eq_iff)

lemma init_intact:
  assumes "class_intact h"
  shows "class_intact (snd (init h None))"
  using assms unfolding class_intact_def init_default[OF assms]
  by (simp add: DEFAULT_SERVICES_def)

lemma set_service_enabled_frame:
  "lists (snd (set_service_enabled h d n e)) = lists h"
  "next_obj (snd (set_service_enabled h d n e)) = next_obj h"
  "next_list (snd (set_service_enabled h d n e)) = next_list h"
  "name (objs (snd (set_service_enabled h d n e)) a) = name (objs h a)"
  by (simp_all add: set_service_enabled_def split: option.splits)

lemma set_service_enabled_intact:
  "class_intact h \<Longrightarrow> class_intact (snd (set_service_enabled h d n e))"
  by (simp add: class_intact_def set_service_enabled_frame)

lemma shown_default:
  assumes "class_intact h"
  shows "shown (snd (init h None)) (services (fst (init h None)))
         = [(''ipify'', True), (''ipinfo'', True), (''ifconfig'', True),
            (''icanhazip'', enabled (objs h 3))]"
  using assms unfolding shown_def init_default[OF assms]
  by (simp add: class_intact_def from_config_def)

lemma default_shapeD:
  assumes "default_shape h d"
  obtains a0 a1 a2 where "lists h (services d) = [a0, a1, a2, 3]"
    and "3 < a0" "3 < a1" "3 < a2" "a0 < next_obj h" "a1 < next_obj h" "a2 < next_obj h"
    and "name (objs h a0) = ''ipify''" "name (objs h a1) = ''ipinfo''"
      "name (objs h a2) = ''ifconfig''"
    and "services d \<noteq> 0" "services d < next_list h"
proof -
  from assms have len: "length (lists h (services d)) = 4" by (simp add: default_shape_def)
  then obtain a0 a1 a2 a3 where xs: "lists h (services d) = [a0, a1, a2, a3]"
    by (auto simp: length_Suc_conv numeral_eq_Suc)
  from assms xs have "a3 = 3" by (simp add: default_shape_def)
  with assms xs that[of a0 a1 a2] show thesis
    by (simp add: default_shape_def DEFAULT_SERVICES_def)
qed

lemma default_shapeI:
  assumes "lists h (services d) = [a0, a1, a2, 3]"
    and "3 < a0" "3 < a1" "3 < a2" "a0 < next_obj h" "a1 < next_obj h" "a2 < next_obj h"
    and "name (objs h a0) = ''ipify''" "name (objs h a1) = ''ipinfo''"
      "name (objs h a2) = ''ifconfig''"
    and "services d \<noteq> 0" "services d < next_list h"
  shows "default_shape h d"
  using assms by (simp add: default_shape_def DEFAULT_SERVICES_def)

lemma init_default_shape:
  assumes "class_intact h"
  shows "default_shape (snd (init h None)) (fst (init h None))"
proof -
  from assms have b: "4 \<le> next_obj h" "1 \<le> next_list h" by (simp_all add: class_intact_def)
  show ?thesis
    by (rule default_shapeI[of _ _ "next_obj h" "next_obj h + 1" "next_obj h + 2"])
      (use b in \<open>simp_all add: init_default[OF assms] from_config_def\<close>)
qed

lemma init_keeps_shape:
  assumes ci: "class_intact h" and s: "default_shape h d0"
  shows "default_shape (snd (init h None)) d0"
    and "apart (snd (init h None)) (fst (init h None)) d0"
    and "shown (snd (init h None)) (services d0) = shown h (services d0)"
proof -
  from s obtain a0 a1 a2 where x: "lists h (services d0) = [a0, a1, a2, 3]"
    "3 < a0" "3 < a1" "3 < a2" "a0 < next_obj h" "a1 < next_obj h" "a2 < next_obj h"
    "name (objs h a0) = ''ipify''" "name (objs h a1) = ''ipinfo''"
    "name (objs h a2) = ''ifconfig''" "services d0 \<noteq> 0" "services d0 < next_list h"
    by (rule default_shapeD)
  from ci have b: "4 \<le> next_obj h" "1 \<le> next_list h" by (simp_all add: class_intact_def)
  note f = init_default[OF ci]
  have l: "lists (snd (init h None)) (services d0) = [a0, a1, a2, 3]"
    using x by (simp add: f)
  have o: "objs (snd (init h None)) a = objs h a" if "a < next_obj h" for a
    using that by (simp add: f)
  show "default_shape (snd (init h None)) d0"
    by (rule default_shapeI[OF l]) (use x b in \<open>simp_all add: o f\<close>)
  show "apart (snd (init h None)) (fst (init h None)) d0"
    using x by (simp add: apart_def l f)
  show "shown (snd (init h None)) (services d0) = shown h (services d0)"
    using x b by (simp add: shown_def l o)
qed

lemma init_keeps_apart:
  assumes ci: "class_intact h" and "default_shape h d0" "default_shape h d0'" "apart h d0 d0'"
  shows "apart (snd (init h None)) d0 d0'"
  using assms(2-) by (simp add: apart_def default_shape_def init_default[OF ci])

lemma set_service_enabled_shape:
  assumes "default_shape h d0"
  shows "default_shape (snd (set_service_enabled h d n e)) d0"
proof -
  let ?h' = "snd (set_service_enabled h d n e)"
  from assms obtain a0 a1 a2 where x: "lists h (services d0) = [a0, a1, a2, 3]"
    "3 < a0" "3 < a1" "3 < a2" "a0 < next_obj h" "a1 < next_obj h" "a2 < next_obj h"
    "name (objs h a0) = ''ipify''" "name (objs h a1) = ''ipinfo''"
    "name (objs h a2) = ''ifconfig''" "services d0 \<noteq> 0" "services d0 < next_list h"
    by (rule default_shapeD)
  show ?thesis
    by (rule default_shapeI[of _ _ a0 a1 a2]) (use x in \<open>simp_all add: set_service_enabled_frame\<close>)
qed

lemma set_service_enabled_apart:
  "apart h d1 d2 \<Longrightarrow> apart (snd (set_service_enabled h d n e)) d1 d2"
  by (simp add: apart_def set_service_enabled_frame)

text \<open>
  C10, as amended. A detector constructed with no argument copies \<open>DEFAULT_SERVICES\<close>
  and then merges the default configuration, which replaces its \<open>ipify\<close>, \<open>ipinfo\<close>
  and \<open>ifconfig\<close> entries by new objects of its own: only the \<open>icanhazip\<close> object
  stays shared. In a store where \<open>DEFAULT_SERVICES\<close> is as the class body left it:

  \<^item> construction gives a registry of that shape (\<open>default_shape\<close>), apart from
    every registry of that shape that exists, and leaves those as they are;

  \<^item> when a detector \<open>d1\<close> whose registry still has that shape sets the flag of \<open>n\<close> to
    \<open>e\<close> (\<open>disable_service\<close> and \<open>enable_service\<close> are \<open>set_service_enabled\<close>
    with \<open>False\<close> and \<open>True\<close>), then for every other detector \<open>d2\<close> whose registry
    still has that shape and for a detector \<open>d3\<close> constructed afterwards: for
    \<open>icanhazip\<close> the lists \<open>d2\<close> and \<open>d3\<close> return show the new flag; for the other
    three default names they show what they showed before, and only \<open>d1\<close> shows the new
    flag. The call keeps the shape of every registry.
\<close>

theorem default_detectors_share_icanhazip_only:
  assumes ci: "class_intact h"
  shows "(let (d, h') = init h None in
            class_intact h' \<and> default_shape h' d
            \<and> lists h' (services d) ! 3 = 3
            \<and> list_all (\<lambda>a. next_obj h \<le> a) (take 3 (lists h' (services d)))
            \<and> (\<forall>d0. default_shape h d0 \<longrightarrow>
                  default_shape h' d0 \<and> apart h' d d0
                  \<and> shown h' (services d0) = shown h (services d0)
                  \<and> (\<forall>d0'. default_shape h d0' \<and> apart h d0 d0' \<longrightarrow> apart h' d0 d0')))
       \<and> (\<forall>d1 d2. default_shape h d1 \<and> default_shape h d2 \<and> apart h d1 d2 \<longrightarrow>
            (let (found, h1) = set_service_enabled h d1 n e;
                 (l2, h2) = get_available_services h1 d2;
                 (d3, h3) = init h2 None;
                 (l3, h4) = get_available_services h3 d3
             in class_intact h1 \<and> default_shape h1 d1 \<and> default_shape h1 d2 \<and> apart h1 d1 d2
                \<and> (n = ''icanhazip'' \<longrightarrow>
                      found
                      \<and> shown h4 l2 = (shown h (services d2))[3 := (''icanhazip'', e)]
                      \<and> shown h4 l3 = [(''ipify'', True), (''ipinfo'', True), (''ifconfig'', True),
                                       (''icanhazip'', e)])
                \<and> (n \<in> {''ipify'', ''ipinfo'', ''ifconfig''} \<longrightarrow>
                      found
                      \<and> shown h4 l2 = shown h (services d2)
                      \<and> shown h4 l3 = [(''ipify'', True), (''ipinfo'', True), (''ifconfig'', True),
                                       (''icanhazip'', enabled (objs h 3))]
                      \<and> (n, e) \<in> set (shown h4 (services d1)))))"
proof (intro conjI allI impI)
  show "let (d, h') = init h None in
            class_intact h' \<and> default_shape h' d
            \<and> lists h' (services d) ! 3 = 3
            \<and> list_all (\<lambda>a. next_obj h \<le> a) (take 3 (lists h' (services d)))
            \<and> (\<forall>d0. default_shape h d0 \<longrightarrow>
                  default_shape h' d0 \<and> apart h' d d0
                  \<and> shown h' (services d0) = shown h (services d0)
                  \<and> (\<forall>d0'. default_shape h d0' \<and> apart h d0 d0' \<longrightarrow> apart h' d0 d0'))"
  proof -
    have "class_intact (snd (init h None))" by (rule init_intact[OF ci])
    moreover have "default_shape (snd (init h None)) (fst (init h None))"
      by (rule init_default_shape[OF ci])
    moreover have "lists (snd (init h None)) (services (fst (init h None))) ! 3 = 3"
      "list_all (\<lambda>a. next_obj h \<le> a) (take 3 (lists (snd (init h None)) (services (fst (init h None)))))"
      by (simp_all add: init_default[OF ci])
    moreover have "\<forall>d0. default_shape h d0 \<longrightarrow>
                  default_shape (snd (init h None)) d0 \<and> apart (snd (init h None)) (fst (init h None)) d0
                  \<and> shown (snd (init h None)) (services d0) = shown h (services d0)
                  \<and> (\<forall>d0'. default_shape h d0' \<and> apart h d0 d0' \<longrightarrow> apart (snd (init h None)) d0 d0')"
      using init_keeps_shape[OF ci] init_keeps_apart[OF ci] by blast
    ultimately show ?thesis by (simp add: split_beta)
  qed
next
  fix d1 d2
  assume a: "default_shape h d1 \<and> default_shape h d2 \<and> apart h d1 d2"
  then have s1: "default_shape h d1" and s2: "default_shape h d2" and ap: "apart h d1 d2"
    by simp_all
  from s1 obtain a0 a1 a2 where x: "lists h (services d1) = [a0, a1, a2, 3]"
    "3 < a0" "3 < a1" "3 < a2" "a0 < next_obj h" "a1 < next_obj h" "a2 < next_obj h"
    "name (objs h a0) = ''ipify''" "name (objs h a1) = ''ipinfo''"
    "name (objs h a2) = ''ifconfig''" "services d1 \<noteq> 0" "services d1 < next_list h"
    by (rule default_shapeD)
  from s2 obtain b0 b1 b2 where y: "lists h (services d2) = [b0, b1, b2, 3]"
    "3 < b0" "3 < b1" "3 < b2" "b0 < next_obj h" "b1 < next_obj h" "b2 < next_obj h"
    "name (objs h b0) = ''ipify''" "name (objs h b1) = ''ipinfo''"
    "name (objs h b2) = ''ifconfig''" "services d2 \<noteq> 0" "services d2 < next_list h"
    by (rule default_shapeD)
  from ap x(1) y(1) have dis: "{a0, a1, a2} \<inter> {b0, b1, b2} = {}" by (simp add: apart_def)
  from ci have n3: "name (objs h 3) = ''icanhazip''" and b: "4 \<le> next_obj h" "1 \<le> next_list h"
    by (simp_all add: class_intact_def)
  define found where "found = fst (set_service_enabled h d1 n e)"
  define h1 where "h1 = snd (set_service_enabled h d1 n e)"
  define l2 where "l2 = fst (get_available_services h1 d2)"
  define h2 where "h2 = snd (get_available_services h1 d2)"
  define d3 where "d3 = fst (init h2 None)"
  define h3 where "h3 = snd (init h2 None)"
  define l3 where "l3 = fst (get_available_services h3 d3)"
  define h4 where "h4 = snd (get_available_services h3 d3)"
  note defs = found_def h1_def l2_def h2_def d3_def h3_def l3_def h4_def
  have eq: "set_service_enabled h d1 n e = (found, h1)" "get_available_services h1 d2 = (l2, h2)"
    "init h2 None = (d3, h3)" "get_available_services h3 d3 = (l3, h4)"
    by (simp_all add: defs)
  have i1: "class_intact h1" unfolding h1_def by (rule set_service_enabled_intact[OF ci])
  have fr1: "lists h1 = lists h" "next_obj h1 = next_obj h" "next_list h1 = next_list h"
    unfolding h1_def by (simp_all add: set_service_enabled_frame)
  have g2: "l2 = next_list h" "lists h2 = (lists h)(next_list h := lists h (services d2))"
    "objs h2 = objs h1" "next_list h2 = Suc (next_list h)" "next_obj h2 = next_obj h"
    by (simp_all add: defs get_available_services_def list_copy_def new_list_def set_service_enabled_frame)
  have i2: "class_intact h2"
    using i1 b by (simp add: class_intact_def g2 fr1 DEFAULT_SERVICES_def)
  note f3 = init_default[OF i2, folded d3_def h3_def]
  have g4: "l3 = next_list h3" "lists h4 = (lists h3)(next_list h3 := lists h3 (services d3))"
    "objs h4 = objs h3"
    by (simp_all add: defs get_available_services_def list_copy_def new_list_def)
  have o4: "objs h4 a = objs h1 a" if "a < next_obj h" for a
    using that by (simp add: g4 f3 g2)
  have sh_l2: "shown h4 l2 = map (\<lambda>a. (name (objs h1 a), enabled (objs h1 a))) [b0, b1, b2, 3]"
    using y b by (simp add: shown_def g4 f3 g2 o4)
  have sh_d1: "shown h4 (services d1)
      = map (\<lambda>a. (name (objs h1 a), enabled (objs h1 a))) [a0, a1, a2, 3]"
    using x b by (simp add: shown_def g4 f3 g2 o4)
  have sh_l3: "shown h4 l3 = [(''ipify'', True), (''ipinfo'', True), (''ifconfig'', True),
            (''icanhazip'', enabled (objs h1 3))]"
  proof -
    have "shown h3 (services d3) = [(''ipify'', True), (''ipinfo'', True), (''ifconfig'', True),
            (''icanhazip'', enabled (objs h2 3))]"
      unfolding d3_def h3_def by (rule shown_default[OF i2])
    moreover have "shown h4 l3 = shown h3 (services d3)" by (simp add: shown_def g4)
    ultimately show ?thesis by (simp add: g2)
  qed
  have inv: "class_intact h1 \<and> default_shape h1 d1 \<and> default_shape h1 d2 \<and> apart h1 d1 d2"
    unfolding h1_def
    using ci s1 s2 ap
    by (simp add: set_service_enabled_intact set_service_enabled_shape set_service_enabled_apart)
  have A: "found \<and> shown h4 l2 = (shown h (services d2))[3 := (''icanhazip'', e)]
      \<and> shown h4 l3 = [(''ipify'', True), (''ipinfo'', True), (''ifconfig'', True),
                        (''icanhazip'', e)]"
    if nn: "n = ''icanhazip''"
  proof -
    have fs: "find_service (objs h) n (lists h (services d1)) = Some 3"
      using x n3 by (simp add: nn)
    then have fo: "found" and o1: "objs h1 = (objs h)(3 := (objs h 3)\<lparr>enabled := e\<rparr>)"
      by (simp_all add: defs set_service_enabled_def)
    have "shown h4 l2 = (shown h (services d2))[3 := (''icanhazip'', e)]"
      unfolding sh_l2 using y n3 by (simp add: o1 shown_def)
    moreover have "enabled (objs h1 3) = e" by (simp add: o1)
    ultimately show ?thesis using fo by (simp add: sh_l3)
  qed
  have B: "found \<and> shown h4 l2 = shown h (services d2)
      \<and> shown h4 l3 = [(''ipify'', True), (''ipinfo'', True), (''ifconfig'', True),
                        (''icanhazip'', enabled (objs h 3))]
      \<and> (n, e) \<in> set (shown h4 (services d1))"
    if nin: "n \<in> {''ipify'', ''ipinfo'', ''ifconfig''}"
  proof -
    obtain c where c: "c \<in> {a0, a1, a2}" "find_service (objs h) n (lists h (services d1)) = Some c"
      "name (objs h c) = n"
    proof -
      consider "n = ''ipify''" | "n = ''ipinfo''" | "n = ''ifconfig''" using nin by auto
      then show ?thesis
      proof cases
        case 1 then show ?thesis using that[of a0] x by simp
      next
        case 2 then show ?thesis using that[of a1] x by simp
      next
        case 3 then show ?thesis using that[of a2] x by simp
      qed
    qed
    from c(2) have fo: "found" and o1: "objs h1 = (objs h)(c := (objs h c)\<lparr>enabled := e\<rparr>)"
      by (simp_all add: defs set_service_enabled_def)
    from c(1) dis x have cn: "c \<noteq> b0" "c \<noteq> b1" "c \<noteq> b2" "c \<noteq> 3" by auto
    have "shown h4 l2 = shown h (services d2)"
      unfolding sh_l2 using y cn by (simp add: o1 shown_def)
    moreover have "objs h1 3 = objs h 3" using cn by (simp add: o1)
    moreover have "(n, e) \<in> set (shown h4 (services d1))"
    proof -
      have "(name (objs h1 c), enabled (objs h1 c)) = (n, e)" using c(3) by (simp add: o1)
      moreover have "c \<in> set [a0, a1, a2, 3]" using c(1) by auto
      ultimately show ?thesis unfolding sh_d1 by (metis (no_types, lifting) image_eqI set_map)
    qed
    ultimately show ?thesis using fo by (simp add: sh_l3)
  qed
  have "class_intact h1 \<and> default_shape h1 d1 \<and> default_shape h1 d2 \<and> apart h1 d1 d2
                \<and> (n = ''icanhazip'' \<longrightarrow>
                      found
                      \<and> shown h4 l2 = (shown h (services d2))[3 := (''icanhazip'', e)]
                      \<and> shown h4 l3 = [(''ipify'', True), (''ipinfo'', True), (''ifconfig'', True),
                                       (''icanhazip'', e)])
                \<and> (n \<in> {''ipify'', ''ipinfo'', ''ifconfig''} \<longrightarrow>
                      found
                      \<and> shown h4 l2 = shown h (services d2)
                      \<and> shown h4 l3 = [(''ipify'', True), (''ipinfo'', True), (''ifconfig'', True),
                                       (''icanhazip'', enabled (objs h 3))]
                      \<and> (n, e) \<in> set (shown h4 (services d1)))"
    using inv A B by blast
  then show "let (found, h1) = set_service_enabled h d1 n e;
                 (l2, h2) = get_available_services h1 d2;
                 (d3, h3) = init h2 None;
                 (l3, h4) = get_available_services h3 d3
             in class_intact h1 \<and> default_shape h1 d1 \<and> default_shape h1 d2 \<and> apart h1 d1 d2
                \<and> (n = ''icanhazip'' \<longrightarrow>
                      found
                      \<and> shown h4 l2 = (shown h (services d2))[3 := (''icanhazip'', e)]
                      \<and> shown h4 l3 = [(''ipify'', True), (''ipinfo'', True), (''ifconfig'', True),
                                       (''icanhazip'', e)])
                \<and> (n \<in> {''ipify'', ''ipinfo'', ''ifconfig''} \<longrightarrow>
                      found
                      \<and> shown h4 l2 = shown h (services d2)
                      \<and> shown h4 l3 = [(''ipify'', True), (''ipinfo'', True), (''ifconfig'', True),
                                       (''icanhazip'', enabled (objs h 3))]
                      \<and> (n, e) \<in> set (shown h4 (services d1)))"
    unfolding eq Let_def prod.case .
qed

lemma class_heap_intact: "class_intact class_heap"
  by (simp add: class_intact_def class_heap_def DEFAULT_SERVICES_def)

lemmas eval_defs = init_def list_copy_def new_list_def load_services_from_config_def
  get_ip_services_def new_config_def default_ip_services_def add_service_def new_service_def
  update_service_def class_heap_def DEFAULT_SERVICES_def get_available_services_def
  set_service_enabled_def disable_service_def enable_service_def shown_def

text \<open>
  C10 as stated fails for \<open>ipify\<close>: after the first default-constructed detector
  disables it, that detector shows the flag off, while a second one constructed before
  the call and a third one constructed after it still show it on.
\<close>

theorem disable_not_observed_counterexample:
  "let (d1, h1) = init class_heap None; (d2, h2) = init h1 None;
       (found, h3) = disable_service h2 d1 ''ipify'';
       (d3, h4) = init h3 None;
       (l1, h5) = get_available_services h4 d1;
       (l2, h6) = get_available_services h5 d2;
       (l3, h7) = get_available_services h6 d3
   in found
      \<and> shown h7 l1 = [(''ipify'', False), (''ipinfo'', True), (''ifconfig'', True), (''icanhazip'', True)]
      \<and> shown h7 l2 = [(''ipify'', True), (''ipinfo'', True), (''ifconfig'', True), (''icanhazip'', True)]
      \<and> shown h7 l3 = [(''ipify'', True), (''ipinfo'', True), (''ifconfig'', True), (''icanhazip'', True)]"
  by (simp add: eval_defs)

lemma two_detector_heap_shape:
  "class_intact two_detector_heap"
  "default_shape two_detector_heap default_detector"
  "default_shape two_detector_heap second_detector"
  "apart two_detector_heap default_detector second_detector"
  by (simp_all add: two_detector_heap_def second_detector_def default_heap_def default_detector_def
      class_intact_def default_shape_def apart_def eval_defs)

theorem default_detectors_share_icanhazip_only_witness:
  "class_intact two_detector_heap
   \<and> default_shape two_detector_heap default_detector
   \<and> default_shape two_detector_heap second_detector
   \<and> apart two_detector_heap default_detector second_detector
   \<and> (let (found, h1) = set_service_enabled two_detector_heap default_detector ''icanhazip'' False;
           (l2, h2) = get_available_services h1 second_detector;
           (d3, h3) = init h2 None;
           (l3, h4) = get_available_services h3 d3
       in found
          \<and> shown h4 l2 = [(''ipify'', True), (''ipinfo'', True), (''ifconfig'', True), (''icanhazip'', False)]
          \<and> shown h4 l3 = [(''ipify'', True), (''ipinfo'', True), (''ifconfig'', True), (''icanhazip'', False)])
   \<and> (let (found, h1) = set_service_enabled two_detector_heap second_detector ''ipinfo'' False;
           (l2, h2) = get_available_services h1 default_detector;
           (d3, h3) = init h2 None;
           (l3, h4) = get_available_services h3 d3
       in found
          \<and> shown h4 l2 = [(''ipify'', True), (''ipinfo'', True), (''ifconfig'', True), (''icanhazip'', True)]
          \<and> shown h4 l3 = [(''ipify'', True), (''ipinfo'', True), (''ifconfig'', True), (''icanhazip'', True)]
          \<and> (''ipinfo'', False) \<in> set (shown h4 (services second_detector)))"
proof -
  note s = two_detector_heap_shape
  have ap': "apart two_detector_heap second_detector default_detector"
    using s(4) by (auto simp: apart_def)
  have sh: "shown two_detector_heap (services default_detector)
      = [(''ipify'', True), (''ipinfo'', True), (''ifconfig'', True), (''icanhazip'', True)]"
    "shown two_detector_heap (services second_detector)
      = [(''ipify'', True), (''ipinfo'', True), (''ifconfig'', True), (''icanhazip'', True)]"
    "enabled (objs two_detector_heap 3)"
    by (simp_all add: two_detector_heap_def second_detector_def default_heap_def default_detector_def
      eval_defs)
  have a: "default_shape two_detector_heap default_detector \<and> default_shape two_detector_heap second_detector
      \<and> apart two_detector_heap default_detector second_detector"
    using s by simp
  have b: "default_shape two_detector_heap second_detector \<and> default_shape two_detector_heap default_detector
      \<and> apart two_detector_heap second_detector default_detector"
    using s ap' by simp
  note t1 = default_detectors_share_icanhazip_only[OF s(1), of "''icanhazip''" False, THEN conjunct2, rule_format, OF a]
  note t2 = default_detectors_share_icanhazip_only[OF s(1), of "''ipinfo''" False, THEN conjunct2, rule_format, OF b]
  show ?thesis
    using t1 t2 s by (simp add: Let_def split_beta sh)
qed

section \<open>The list returned by \<open>get_available_services\<close>\<close>

lemma mutate_list_level_frame:
  assumes "list_level m" and "l \<noteq> l'"
  shows "lists (mutate h l m) l' = lists h l'" and "objs (mutate h l m) = objs h"
  using assms by (cases m; simp)+

lemma mutations_list_level_frame:
  assumes "list_all list_level ms" and "l \<noteq> l'"
  shows "lists (foldl (\<lambda>s m. mutate s l m) h ms) l' = lists h l'
       \<and> objs (foldl (\<lambda>s m. mutate s l m) h ms) = objs h"
  using assms
proof (induction ms arbitrary: h)
  case Nil
  then show ?case by simp
next
  case (Cons m ms)
  then have "list_level m" "list_all list_level ms" by simp_all
  with Cons.IH[of "mutate h l m"] Cons.prems(2) mutate_list_level_frame[of m l l' h]
  show ?case by simp
qed

text \<open>
  C3, as amended. \<open>get_available_services\<close> returns a new list that holds the
  registry's own objects. Whatever the caller does to the returned list itself
  (\<open>append\<close>, \<open>pop\<close>, item assignment, \<open>clear\<close>, any number of times) leaves the
  registry as it was; an assignment to a field of the entry at a position of the
  returned list is an assignment to the registry's entry at that position.
\<close>

theorem get_available_services_shallow_copy:
  assumes wf: "wf_detector h d"
  shows "let (l, h1) = get_available_services h d in
           l \<noteq> services d \<and> registry h1 d = registry h d \<and> lists h1 l = lists h (services d)
           \<and> (\<forall>ms. list_all list_level ms \<longrightarrow>
                 registry (foldl (\<lambda>s m. mutate s l m) h1 ms) d = registry h d)
           \<and> (\<forall>i fa. i < length (registry h d) \<longrightarrow>
                 registry (mutate h1 l (SetField i fa)) d ! i = assign fa (registry h d ! i))"
proof -
  define l where "l = next_list h"
  define h1 where "h1 = h\<lparr>lists := (lists h)(l := lists h (services d)), next_list := Suc l\<rparr>"
  have g: "get_available_services h d = (l, h1)"
    by (simp add: get_available_services_def list_copy_def new_list_def l_def h1_def)
  from wf have ne: "l \<noteq> services d" by (simp add: wf_detector_def l_def)
  have same: "lists h1 (services d) = lists h (services d)" "objs h1 = objs h"
    "lists h1 l = lists h (services d)"
    using ne by (simp_all add: h1_def)
  have r1: "registry h1 d = registry h d" by (simp add: registry_def same)
  have L: "registry (foldl (\<lambda>s m. mutate s l m) h1 ms) d = registry h d"
    if "list_all list_level ms" for ms
    using mutations_list_level_frame[OF that ne, of h1] by (simp add: registry_def same)
  have E: "registry (mutate h1 l (SetField i fa)) d ! i = assign fa (registry h d ! i)"
    if "i < length (registry h d)" for i fa
    using that by (simp add: registry_def same)
  from ne r1 same(3) L E show ?thesis unfolding g Let_def prod.case by blast
qed

theorem get_available_services_shallow_copy_witness:
  "wf_detector default_heap default_detector
   \<and> (let (l, h1) = get_available_services default_heap default_detector in
        registry (foldl (\<lambda>s m. mutate s l m) h1 [Pop 0, SetItem 0 3, Append 6, Clear])
           default_detector
          = registry default_heap default_detector
        \<and> registry (mutate h1 l (SetField 2 (AssignUrl ''http://198.51.100.1/''))) default_detector ! 2
          = \<lparr>name = ''ifconfig'', url = ''http://198.51.100.1/'', timeout = 10, enabled = True\<rparr>)"
proof -
  obtain l h1 where g: "get_available_services default_heap default_detector = (l, h1)"
    by (cases "get_available_services default_heap default_detector")
  from get_available_services_shallow_copy[OF default_wf]
  have L: "\<forall>ms. list_all list_level ms \<longrightarrow>
             registry (foldl (\<lambda>s m. mutate s l m) h1 ms) default_detector
               = registry default_heap default_detector"
    and E: "\<forall>i fa. i < length (registry default_heap default_detector) \<longrightarrow>
             registry (mutate h1 l (SetField i fa)) default_detector ! i
               = assign fa (registry default_heap default_detector ! i)"
    unfolding g Let_def prod.case by blast+
  have "list_all list_level [Pop 0, SetItem 0 3, Append 6, Clear]" by simp
  with L have 1: "registry (foldl (\<lambda>s m. mutate s l m) h1 [Pop 0, SetItem 0 3, Append 6, Clear])
           default_detector = registry default_heap default_detector" by blast
  have "(2::nat) < length (registry default_heap default_detector)"
    by (simp add: default_registry)
  with E have "registry (mutate h1 l (SetField 2 (AssignUrl ''http://198.51.100.1/''))) default_detector ! 2
      = assign (AssignUrl ''http://198.51.100.1/'') (registry default_heap default_detector ! 2)"
    by blast
  then have 2: "registry (mutate h1 l (SetField 2 (AssignUrl ''http://198.51.100.1/''))) default_detector ! 2
      = \<lparr>name = ''ifconfig'', url = ''http://198.51.100.1/'', timeout = 10, enabled = True\<rparr>"
    by (simp add: default_registry)
  from default_wf 1 2 show ?thesis unfolding g Let_def prod.case by blast
qed

text \<open>
  C3 as stated fails: a caller that sets \<open>enabled\<close> of the first returned entry to
  \<open>False\<close> has disabled the registry's first service, and the next sequential
  detection no longer probes it.
\<close>

theorem returned_entries_alias_registry_counterexample:
  "let (l, h1) = get_available_services default_heap default_detector;
       h2 = mutate h1 l (SetField 0 (AssignEnabled False))
   in registry h1 default_detector = registry default_heap default_detector
      \<and> map enabled (registry h1 default_detector) = [True, True, True, True]
      \<and> map enabled (registry h2 default_detector) = [False, True, True, True]
      \<and> probes (detect_public_ip_sync example_net h1 default_detector 10)
           = [(''https://api.ipify.org'', 10), (''https://ipinfo.io/ip'', 10),
              (''https://ifconfig.me/ip'', 10), (''https://icanhazip.com'', 10)]
      \<and> probes (detect_public_ip_sync example_net h2 default_detector 10)
           = [(''https://ipinfo.io/ip'', 10), (''https://ifconfig.me/ip'', 10),
              (''https://icanhazip.com'', 10)]"
  by (simp add: get_available_services_def list_copy_def new_list_def registry_def
      default_detector_services default_heap_lists default_heap_objs
      detect_public_ip_sync_def sync_try_def example_net_def)

section \<open>Floating-point subtraction\<close>

lemma round_half_even_of_int: "round_half_even (of_int m) = m"
  by (simp add: round_half_even_def)

text \<open>
  A number with at most 53 significant bits is a double, and rounding leaves it as it
  is. So the floating-point difference of two doubles on a common grid is exact when
  it has at most 53 significant bits on that grid; the doubles from \<open>2^30\<close> up to
  \<open>2^31\<close>, the times from 2004 to 2038, are the multiples of \<open>2^-22\<close> in that range.
\<close>

lemma double_round_exact:
  assumes "\<bar>n\<bar> < 2 ^ 53"
  shows "double_round (of_int n * 2 powr of_int e) = of_int n * 2 powr of_int e"
proof (cases "n = 0")
  case True
  then show ?thesis by (simp add: double_round_def)
next
  case False
  define z :: real where "z = of_int n * 2 powr of_int e"
  define k where "k = \<lfloor>log 2 \<bar>z\<bar>\<rfloor> - 52"
  have az: "\<bar>z\<bar> = of_int \<bar>n\<bar> * 2 powr of_int e" by (simp add: z_def abs_mult)
  have pos: "0 < \<bar>z\<bar>" using False by (simp add: z_def)
  have "real_of_int \<bar>n\<bar> < real_of_int (2 ^ 53)" using assms by (simp only: of_int_less_iff)
  then have "real_of_int \<bar>n\<bar> < 2 ^ 53" by simp
  then have "\<bar>z\<bar> < 2 ^ 53 * 2 powr of_int e" unfolding az by (simp)
  also have "\<dots> = 2 powr of_int (53 + e)" by (simp add: powr_add powr_realpow[symmetric])
  finally have "log 2 \<bar>z\<bar> < of_int (53 + e)" using pos by (simp add: log_less_iff)
  then have "\<lfloor>log 2 \<bar>z\<bar>\<rfloor> < 53 + e" by (simp add: floor_less_iff)
  then have ke: "k \<le> e" by (simp add: k_def)
  have sc: "(2::real) powr of_int e = 2 powr of_int k * 2 ^ nat (e - k)"
  proof -
    have "(2::real) powr of_int e = (2::real) powr (of_int k + of_int (e - k))" by simp
    also have "\<dots> = (2::real) powr of_int k * 2 powr of_int (e - k)" by (simp only: powr_add)
    also have "(2::real) powr of_int (e - k) = (2::real) ^ nat (e - k)"
      using ke by (simp add: powr_realpow[symmetric])
    finally show ?thesis .
  qed
  have q: "z / 2 powr of_int k = of_int (n * 2 ^ nat (e - k))"
    unfolding z_def sc by simp
  have "double_round z = of_int (round_half_even (z / 2 powr of_int k)) * 2 powr of_int k"
    using pos by (simp add: double_round_def k_def Let_def)
  also have "\<dots> = of_int (n * 2 ^ nat (e - k)) * 2 powr of_int k"
    unfolding q round_half_even_of_int ..
  also have "\<dots> = z" unfolding z_def sc by simp
  finally show ?thesis unfolding z_def .
qed

lemma double_sub_exact:
  assumes "x = of_int a * 2 powr of_int e" and "y = of_int b * 2 powr of_int e"
    and "\<bar>a - b\<bar> < 2 ^ 53"
  shows "double_sub x y = x - y"
proof -
  have "x - y = of_int (a - b) * 2 powr of_int e" by (simp add: assms algebra_simps)
  with double_round_exact[OF assms(3), of e] show ?thesis by (simp add: double_sub_def)
qed

lemma double_sub_int: "\<bar>a - b\<bar> < 2 ^ 53 \<Longrightarrow> double_sub (of_int a) (of_int b) = of_int a - of_int b"
  using double_sub_exact[of "of_int a" a 0 "of_int b" b] by simp

lemma double_sub_examples:
  "double_sub 500 101 = 399" "double_sub 200 101 = 99" "double_sub 100 101 = - 1"
  using double_sub_int[of 500 101] double_sub_int[of 200 101] double_sub_int[of 100 101]
  by simp_all

text \<open>
  The doubles nearest to 300.1 and to 0.1 differ by a little more than 300, and their
  floating-point difference is 300.
\<close>

lemma double_sub_rounds_at_boundary:
  "(5279415031929242 / 2 ^ 44 :: real) - 7205759403792794 / 2 ^ 56 > 300
   \<and> double_sub (5279415031929242 / 2 ^ 44) (7205759403792794 / 2 ^ 56) = 300"
proof
  define z :: real where "z = 5279415031929242 / 2 ^ 44 - 7205759403792794 / 2 ^ 56"
  show gt: "(5279415031929242 / 2 ^ 44 :: real) - 7205759403792794 / 2 ^ 56 > 300" by simp
  have zpos: "0 < z" "\<bar>z\<bar> = z" "z \<noteq> 0" unfolding z_def by simp_all
  have "2 powr of_int 8 \<le> z \<and> z < 2 powr (of_int 8 + 1)" unfolding z_def by simp
  then have fl: "\<lfloor>log 2 z\<rfloor> = 8" using zpos(1) by (simp add: floor_log_eq_powr_iff)
  have p: "(2::real) powr of_int (- 44) = 1 / 2 ^ 44"
    using powr_realpow[of "2::real" 44] by (simp add: powr_minus field_simps)
  have q: "z / (1 / 2 ^ 44) = 5279415031929242 - 7205759403792794 / 4096" unfolding z_def by simp
  have f: "\<lfloor>5279415031929242 - 7205759403792794 / 4096 :: real\<rfloor> = 5277655813324800"
    by (simp add: floor_eq_iff)
  have r: "round_half_even (5279415031929242 - 7205759403792794 / 4096) = 5277655813324800"
    unfolding round_half_even_def Let_def f by simp
  have "double_round z = of_int (round_half_even (z / 2 powr of_int (- 44))) * 2 powr of_int (- 44)"
    using zpos fl by (simp add: double_round_def Let_def)
  also have "\<dots> = 300" unfolding p q r by simp
  finally show "double_sub (5279415031929242 / 2 ^ 44) (7205759403792794 / 2 ^ 56) = 300"
    unfolding double_sub_def z_def .
qed

section \<open>Properties of the cache and of \<open>resolve\<close>\<close>



lemma get_from_cache_flags:
  "enable_cache (snd (get_from_cache sub now st h)) = enable_cache st"
  "default_ttl (snd (get_from_cache sub now st h)) = default_ttl st"
  by (simp_all add: get_from_cache_def split: option.splits)

lemma store_in_cache_flags:
  "enable_cache (store_in_cache now st h ip als) = enable_cache st"
  "default_ttl (store_in_cache now st h ip als) = default_ttl st"
  by (simp_all add: store_in_cache_def)


lemma resolve_all_flags:
  "enable_cache (snd (resolve_all sub g t1 t2 st h fam)) = enable_cache st"
  "default_ttl (snd (resolve_all sub g t1 t2 st h fam)) = default_ttl st"
  by (simp_all add: resolve_all_def Let_def split_beta get_from_cache_flags store_in_cache_flags
      split: option.splits sum.splits)

lemma get_from_cache_inv: "resolver_inv st \<Longrightarrow> resolver_inv (snd (get_from_cache sub now st h))"
  by (auto simp: resolver_inv_def get_from_cache_def split: option.splits)

lemma store_in_cache_inv: "resolver_inv st \<Longrightarrow> resolver_inv (store_in_cache now st h ip als)"
  by (auto simp: resolver_inv_def store_in_cache_def)


lemma resolve_all_inv: "resolver_inv st \<Longrightarrow> resolver_inv (snd (resolve_all sub g t1 t2 st h fam))"
  by (simp add: resolve_all_def Let_def split_beta get_from_cache_inv store_in_cache_inv
      split: option.splits sum.splits)

lemma clear_cache_inv: "resolver_inv (clear_cache st)"
  by (simp add: resolver_inv_def clear_cache_def)

lemma set_cache_ttl_inv: "resolver_inv st \<Longrightarrow> resolver_inv (set_cache_ttl st ttl)"
  by (simp add: resolver_inv_def set_cache_ttl_def)


text \<open>
  The difference compared is the rounded one. For a record stamped at the double
  nearest to 0.1 and the clock at the double nearest to 300.1, the two numbers differ
  by a little more than 300, their floating-point difference is 300, and with a TTL of
  300 \<open>is_expired\<close> says the record has not expired, as Python's
  \<open>(300.1 - 0.1) > 300\<close> does.
\<close>

lemma is_expired_rounded_difference:
  "(5279415031929242 / 2 ^ 44 :: real)
     - timestamp \<lparr>hostname = ''example.test'', ip_address = ''93.184.216.34'', aliases = [],
         record_type = ''A'', timestamp = 7205759403792794 / 2 ^ 56\<rparr> > real_of_int 300
   \<and> \<not> is_expired double_sub (5279415031929242 / 2 ^ 44)
         \<lparr>hostname = ''example.test'', ip_address = ''93.184.216.34'', aliases = [],
          record_type = ''A'', timestamp = 7205759403792794 / 2 ^ 56\<rparr> 300"
  using double_sub_rounds_at_boundary by (simp add: is_expired_def)

lemma example_resolver_fields:
  "enable_cache example_resolver" "default_ttl example_resolver = 300"
  "cache example_resolver = Map.empty"
  by (simp_all add: example_resolver_def new_resolver_def default_dns_resolver_def)

text \<open>
  On a miss with the cache enabled and a lookup whose first address is not empty,
  \<open>resolve\<close> returns that address and caches this record.
\<close>

lemma resolve_miss:
  assumes "enable_cache st" and "fst (get_from_cache sub t_get st h) = None"
    and "g h fam = Inr info" and "info \<noteq> []" and "item_address (hd info) \<noteq> []"
  shows "fst (resolve sub g t_get t_put st h fam) = Some (item_address (hd info))"
    and "cache (snd (resolve sub g t_get t_put st h fam)) h
         = Some \<lparr>hostname = h, ip_address = item_address (hd info),
              aliases = map (\<lambda>item. family_name (item_family item)) info,
              record_type = ''A'', timestamp = t_put\<rparr>"
  using assms
  by (cases info; simp add: resolve_def Let_def split_beta store_in_cache_def get_from_cache_flags)+

text \<open>
  C4, at a new resolver and \<open>example_lookup\<close>: \<open>resolve\<close> returns the first address
  and caches a record under the hostname, but the record's \<open>aliases\<close> are the names
  of the address families of the items (\<open>item[0].name\<close>), not names the lookup
  reported for the host.
\<close>

theorem resolve_stores_family_names:
  "example_lookup ''example.test'' AF_UNSPEC
     = Inr [(AF_INET, 1, 6, [], (''93.184.216.34'', 0)),
            (AF_INET6, 1, 6, [], (''2606:2800:220:1::'', 0)),
            (AF_INET, 1, 6, [], (''93.184.216.34'', 0))]
   \<and> fst (resolve double_sub example_lookup 100 101 example_resolver ''example.test'' AF_UNSPEC)
     = Some ''93.184.216.34''
   \<and> cache (snd (resolve double_sub example_lookup 100 101 example_resolver ''example.test'' AF_UNSPEC))
       ''example.test''
     = Some \<lparr>hostname = ''example.test'', ip_address = ''93.184.216.34'',
          aliases = [''AF_INET'', ''AF_INET6'', ''AF_INET''], record_type = ''A'',
          timestamp = 101\<rparr>"
  by (simp add: resolve_def example_lookup_def example_resolver_fields get_from_cache_def
      store_in_cache_def)



section \<open>Properties of \<open>resolve_all\<close>\<close>

text \<open>
  \<open>_get_from_cache\<close> tests \<open>_enable_cache\<close> itself, so the test around its call
  changes nothing.
\<close>

lemma cache_check:
  "(if enable_cache st then get_from_cache sub t st h else (None, st)) = get_from_cache sub t st h"
  by (simp add: get_from_cache_def)

lemma remdups_skip: "a \<in> set zs \<Longrightarrow> remdups (xs @ a # zs) = remdups (xs @ zs)"
  by (induction xs) auto

lemma distinct_loop_remdups:
  "distinct acc \<Longrightarrow>
   distinct_loop acc info = rev (remdups (rev (acc @ map item_address info)))"
proof (induction info arbitrary: acc)
  case Nil
  then show ?case by (simp add: distinct_remdups_id)
next
  case (Cons item rest)
  show ?case
  proof (cases "item_address item \<in> set acc")
    case True
    then have "remdups (rev (map item_address rest) @ item_address item # rev acc)
        = remdups (rev (map item_address rest) @ rev acc)"
      by (intro remdups_skip) simp
    with True Cons.IH[OF Cons.prems] show ?thesis by (simp add: Let_def)
  next
    case False
    with Cons.prems have "distinct (acc @ [item_address item])" by simp
    from Cons.IH[OF this] False show ?thesis by (simp add: Let_def)
  qed
qed

lemma distinct_loop_prefix: "\<exists>ys. distinct_loop acc info = acc @ ys"
proof (induction info arbitrary: acc)
  case Nil
  then show ?case by simp
next
  case (Cons item rest)
  from Cons[of "acc @ [item_address item]"] Cons[of acc]
  show ?case by (auto simp: Let_def)
qed

lemma distinct_loop_hd:
  assumes "info \<noteq> []"
  shows "distinct_loop [] info \<noteq> []" and "hd (distinct_loop [] info) = item_address (hd info)"
proof -
  from assms obtain item rest where i: "info = item # rest" by (cases info) auto
  obtain ys where "distinct_loop [item_address item] rest = [item_address item] @ ys"
    using distinct_loop_prefix by blast
  then show "distinct_loop [] info \<noteq> []" "hd (distinct_loop [] info) = item_address (hd info)"
    by (simp_all add: i Let_def)
qed

lemma resolve_all_distinct: "distinct (fst (resolve_all sub g t_get t_put st h fam))"
  by (simp add: resolve_all_def cache_check Let_def split_beta distinct_loop_remdups
      split: option.splits sum.splits)

lemma resolve_all_miss:
  assumes "fst (get_from_cache sub t_get st h) = None" and "g h fam = Inr info"
  shows "fst (resolve_all sub g t_get t_put st h fam) = rev (remdups (rev (map item_address info)))"
  using assms
  by (simp add: resolve_all_def cache_check Let_def split_beta distinct_loop_remdups)

lemma resolve_all_miss_state:
  assumes "enable_cache st" and "fst (get_from_cache sub t_get st h) = None" and "g h fam = Inr info"
    and "info \<noteq> []"
  shows "snd (resolve_all sub g t_get t_put st h fam)
     = store_in_cache t_put (snd (get_from_cache sub t_get st h)) h (item_address (hd info))
         (map (\<lambda>item. family_name (item_family item)) info)"
  using assms distinct_loop_hd[OF assms(4)]
  by (simp add: resolve_all_def cache_check Let_def split_beta get_from_cache_flags)

lemma resolve_all_hit:
  assumes "enable_cache st" and "cache st h = Some r" and "\<not> is_expired sub t r (default_ttl st)"
  shows "resolve_all sub g t t' st h fam = ([ip_address r], st)"
  using assms by (simp add: resolve_all_def get_from_cache_def)

text \<open>
  C8. \<open>resolve_all\<close> returns a duplicate-free sequence. On a miss with a successful
  lookup it is the sequence of the reported addresses in their order, each kept at its
  first occurrence. With the cache enabled and a non-empty result, the record cached
  under the hostname holds the first address only, stamped with the time of the store;
  and any later \<open>resolve_all\<close> for the hostname within the TTL of that stamp (the
  difference \<open>sub t3 t_put\<close> the resolver computes is at most the TTL; with exact
  subtraction for \<open>sub\<close>, the exact age), whatever the lookup would report then,
  returns exactly that one address and leaves the resolver as it is.
\<close>

theorem resolve_all_caches_first_address:
  "distinct (fst (resolve_all sub g t_get t_put st h fam))
   \<and> (fst (get_from_cache sub t_get st h) = None \<and> g h fam = Inr info \<longrightarrow>
        fst (resolve_all sub g t_get t_put st h fam) = rev (remdups (rev (map item_address info)))
        \<and> set (fst (resolve_all sub g t_get t_put st h fam)) = item_address ` set info)
   \<and> (enable_cache st \<and> fst (get_from_cache sub t_get st h) = None \<and> g h fam = Inr info
        \<and> info \<noteq> [] \<longrightarrow>
        (\<exists>r. cache (snd (resolve_all sub g t_get t_put st h fam)) h = Some r
              \<and> ip_address r = item_address (hd info) \<and> timestamp r = t_put)
        \<and> (\<forall>g' t3 t4 fam'. sub t3 t_put \<le> real_of_int (default_ttl st) \<longrightarrow>
              resolve_all sub g' t3 t4 (snd (resolve_all sub g t_get t_put st h fam)) h fam'
                = ([item_address (hd info)], snd (resolve_all sub g t_get t_put st h fam))))"
proof (intro conjI impI)
  show "distinct (fst (resolve_all sub g t_get t_put st h fam))" by (rule resolve_all_distinct)
next
  assume a: "fst (get_from_cache sub t_get st h) = None \<and> g h fam = Inr info"
  then show "fst (resolve_all sub g t_get t_put st h fam) = rev (remdups (rev (map item_address info)))"
    by (simp add: resolve_all_miss)
  with a show "set (fst (resolve_all sub g t_get t_put st h fam)) = item_address ` set info"
    by simp
next
  assume a: "enable_cache st \<and> fst (get_from_cache sub t_get st h) = None \<and> g h fam = Inr info
        \<and> info \<noteq> []"
  let ?st' = "snd (resolve_all sub g t_get t_put st h fam)"
  let ?r = "\<lparr>hostname = h, ip_address = item_address (hd info),
       aliases = map (\<lambda>item. family_name (item_family item)) info, record_type = ''A'',
       timestamp = t_put\<rparr>"
  from a have st': "?st' = store_in_cache t_put (snd (get_from_cache sub t_get st h)) h
      (item_address (hd info)) (map (\<lambda>item. family_name (item_family item)) info)"
    by (simp add: resolve_all_miss_state)
  from a have en: "enable_cache (snd (get_from_cache sub t_get st h))"
    by (simp add: get_from_cache_flags)
  have c: "cache ?st' h = Some ?r" unfolding st' using en by (simp add: store_in_cache_def)
  then show "\<exists>r. cache ?st' h = Some r \<and> ip_address r = item_address (hd info) \<and> timestamp r = t_put"
    by simp
  have en': "enable_cache ?st'" and ttl': "default_ttl ?st' = default_ttl st"
    using a by (simp_all add: resolve_all_flags)
  show "\<forall>g' t3 t4 fam'. sub t3 t_put \<le> real_of_int (default_ttl st) \<longrightarrow>
      resolve_all sub g' t3 t4 ?st' h fam' = ([item_address (hd info)], ?st')"
  proof (intro allI impI)
    fix g' t3 t4 fam'
    assume "sub t3 t_put \<le> real_of_int (default_ttl st)"
    then have "\<not> is_expired sub t3 ?r (default_ttl ?st')" by (simp add: is_expired_def ttl')
    from resolve_all_hit[OF en' c this] show "resolve_all sub g' t3 t4 ?st' h fam' = ([item_address (hd info)], ?st')"
      by simp
  qed
qed

theorem resolve_all_caches_first_address_witness:
  "enable_cache example_resolver
   \<and> fst (get_from_cache double_sub 100 example_resolver ''example.test'') = None
   \<and> example_lookup ''example.test'' AF_UNSPEC
       = Inr [(AF_INET, 1, 6, [], (''93.184.216.34'', 0)),
              (AF_INET6, 1, 6, [], (''2606:2800:220:1::'', 0)),
              (AF_INET, 1, 6, [], (''93.184.216.34'', 0))]
   \<and> double_sub 200 101 \<le> real_of_int (default_ttl example_resolver)
   \<and> fst (resolve_all double_sub example_lookup 100 101 example_resolver ''example.test''
          AF_UNSPEC)
       = [''93.184.216.34'', ''2606:2800:220:1::'']
   \<and> fst (resolve_all double_sub example_lookup 200 201
         (snd (resolve_all double_sub example_lookup 100 101 example_resolver ''example.test''
            AF_UNSPEC))
         ''example.test'' AF_UNSPEC)
       = [''93.184.216.34'']"
proof -
  let ?info = "[(AF_INET, 1, 6, [], (''93.184.216.34'', 0)),
             (AF_INET6, 1, 6, [], (''2606:2800:220:1::'', 0)),
             (AF_INET, 1, 6, [], (''93.184.216.34'', 0))] :: addrinfo list"
  let ?st' = "snd (resolve_all double_sub example_lookup 100 101 example_resolver
      ''example.test'' AF_UNSPEC)"
  have en: "enable_cache example_resolver" by (rule example_resolver_fields)
  have miss: "fst (get_from_cache double_sub 100 example_resolver ''example.test'') = None"
    by (simp add: get_from_cache_def example_resolver_fields)
  have lk: "example_lookup ''example.test'' AF_UNSPEC = Inr ?info"
    by (simp add: example_lookup_def)
  have ne: "?info \<noteq> []" by simp
  have w: "double_sub 200 101 \<le> real_of_int (default_ttl example_resolver)"
    by (simp add: example_resolver_fields double_sub_examples)
  note T = resolve_all_caches_first_address[of double_sub example_lookup 100 101
      example_resolver "''example.test''" AF_UNSPEC ?info]
  have 1: "fst (resolve_all double_sub example_lookup 100 101 example_resolver ''example.test''
        AF_UNSPEC) = rev (remdups (rev (map item_address ?info)))"
    using miss lk by (intro T[THEN conjunct2, THEN conjunct1, rule_format, THEN conjunct1]) simp
  have 2: "resolve_all double_sub example_lookup 200 201 ?st' ''example.test'' AF_UNSPEC
      = ([item_address (hd ?info)], ?st')"
    using en miss lk ne w
    by (intro T[THEN conjunct2, THEN conjunct2, rule_format, THEN conjunct2, rule_format]) simp_all
  from en miss lk w 1 2 show ?thesis by simp
qed

section \<open>Properties of \<open>batch_resolve\<close>\<close>




















end
